theory Spec2Isabelle
  imports Main
begin

section \<open>JavaScript values\<close>

text \<open>
  The values the pipeline handles. An object is its list of own properties in insertion
  order; an array is an object of kind \<open>Array\<close> whose keys are the decimal indices.
  \<open>JBuiltin n\<close> is the member \<open>n\<close> that every plain object inherits from
  \<open>Object.prototype\<close>. Numbers are kept as integers: the model covers the numbers
  that are integers below \<open>10\<^sup>2\<^sup>1\<close> in magnitude and exact as doubles, not
  fractions, exponents and rounding.
\<close>

datatype kind = Plain | Array

datatype jsval =
    JUndefined
  | JNull
  | JBool bool
  | JNum int
  | JStr string
  | JBuiltin string
  | JObj kind "(string \<times> jsval) list"

definition emptyObject :: jsval where
  "emptyObject = JObj Plain []"

text \<open>The names a plain object inherits from \<open>Object.prototype\<close>.\<close>

definition objectPrototype :: "string list" where
  "objectPrototype =
     [''constructor'', ''__defineGetter__'', ''__defineSetter__'', ''hasOwnProperty'',
      ''__lookupGetter__'', ''__lookupSetter__'', ''isPrototypeOf'',
      ''propertyIsEnumerable'', ''toString'', ''valueOf'', ''__proto__'',
      ''toLocaleString'']"

text \<open>\<open>Object.assign\<close> of one key: an existing key keeps its place, a new key goes last.\<close>

fun assignKey :: "string \<Rightarrow> 'v \<Rightarrow> (string \<times> 'v) list \<Rightarrow> (string \<times> 'v) list" where
  "assignKey k v [] = [(k, v)]"
| "assignKey k v ((k', v') # ps) =
     (if k = k' then (k, v) # ps else (k', v') # assignKey k v ps)"

text \<open>\<open>Object.assign({}, prev, src)\<close>: the keys of \<open>src\<close> are written over \<open>prev\<close> in order.\<close>

definition assign :: "(string \<times> 'v) list \<Rightarrow> (string \<times> 'v) list \<Rightarrow> (string \<times> 'v) list" where
  "assign prev src = foldl (\<lambda>acc (k, v). assignKey k v acc) prev src"

text \<open>
  The property read \<open>o[k]\<close> on a value that is neither \<open>null\<close> nor \<open>undefined\<close>:
  an own property first, then the prototype of a plain object. Arrays and primitive
  values have only their own properties here: what they inherit (\<open>length\<close>,
  \<open>toString\<close> and the other members of their prototypes) is not modelled, so a read
  of such a name on an array, a string, a number or a boolean is outside the model.
\<close>

fun readProp :: "jsval \<Rightarrow> string \<Rightarrow> jsval" where
  "readProp (JObj Plain ps) k =
     (case map_of ps k of
        Some v \<Rightarrow> v
      | None \<Rightarrow> if k \<in> set objectPrototype then JBuiltin k else JUndefined)"
| "readProp (JObj Array ps) k = (case map_of ps k of Some v \<Rightarrow> v | None \<Rightarrow> JUndefined)"
| "readProp _ k = JUndefined"

text \<open>lodash's \<open>isObject\<close>: objects, arrays and functions.\<close>

fun isObject :: "jsval \<Rightarrow> bool" where
  "isObject (JObj _ _) = True"
| "isObject (JBuiltin _) = True"
| "isObject _ = False"

section \<open>lodash \<open>get\<close> and \<open>set\<close>\<close>

fun isDigit :: "char \<Rightarrow> bool" where
  "isDigit c = (c \<in> set ''0123456789'')"

fun digitsValue :: "int \<Rightarrow> string \<Rightarrow> int" where
  "digitsValue acc [] = acc"
| "digitsValue acc (c # cs) = digitsValue (10 * acc + (of_char c - 48)) cs"

text \<open>lodash's \<open>isIndex\<close> on a string: \<open>/^(?:0|[1-9]\d*)$/\<close> and below \<open>MAX_SAFE_INTEGER\<close>.\<close>

definition isIndex :: "string \<Rightarrow> bool" where
  "isIndex s =
     (s \<noteq> [] \<and> list_all isDigit s \<and> (s = ''0'' \<or> hd s \<noteq> CHR ''0'')
      \<and> digitsValue 0 s < 9007199254740991)"

text \<open>
  lodash reads a string path with three regular expressions. A \<open>char\<close> stands for one
  code unit of the JavaScript string.
  \<^item> \<open>reIsPlainProp = /^\w*$/\<close>
  \<^item> \<open>reIsDeepProp\<close>: a dot, or \<open>[\<close> followed by characters other than brackets
    (or by a quoted string) and \<open>]\<close>
  \<^item> \<open>rePropName\<close>, matched repeatedly from left to right: a run of characters other
    than \<open>.\<close>, \<open>[\<close>, \<open>]\<close>; or a bracketed number or quoted string; or the empty
    name in front of a dot or \<open>[]\<close> that is followed by a dot, by \<open>[]\<close> or by the end.
    A character at which nothing matches is passed over.
\<close>

definition isWordChar :: "char \<Rightarrow> bool" where
  "isWordChar c =
     (c \<in> set ''abcdefghijklmnopqrstuvwxyzABCDEFGHIJKLMNOPQRSTUVWXYZ0123456789_'')"

definition isPlainProp :: "string \<Rightarrow> bool" where
  "isPlainProp s = list_all isWordChar s"

definition isSpecial :: "char \<Rightarrow> bool" where
  "isSpecial c = (c = CHR ''.'' \<or> c = CHR ''['' \<or> c = CHR '']'')"

definition isQuote :: "char \<Rightarrow> bool" where
  "isQuote c = (c = CHR 0x22 \<or> c = CHR 0x27)"

definition isLineTerminator :: "char \<Rightarrow> bool" where
  "isLineTerminator c = (c = CHR 0x0A \<or> c = CHR 0x0D)"

text \<open>
  After an opening quote \<open>q\<close>: \<open>((?:(?!q)[^\\]|\\.)*?)q\]\<close>, giving the text between
  the quotes and what follows the bracket.
\<close>

fun quotedName :: "char \<Rightarrow> string \<Rightarrow> (string \<times> string) option" where
  "quotedName q [] = None"
| "quotedName q (c # cs) =
     (if c = q then (case cs of b # rest \<Rightarrow> if b = CHR '']'' then Some ([], rest) else None
                              | [] \<Rightarrow> None)
      else if c = CHR 0x5C
      then (case cs of
              [] \<Rightarrow> None
            | x # rest \<Rightarrow>
                if isLineTerminator x then None
                else map_option (\<lambda>(sub, r). (c # x # sub, r)) (quotedName q rest))
      else map_option (\<lambda>(sub, r). (c # sub, r)) (quotedName q cs))"

text \<open>\<open>subString.replace(/\\(\\)?/g, '$1')\<close>\<close>

fun unescape :: "string \<Rightarrow> string" where
  "unescape [] = []"
| "unescape [c] = (if c = CHR 0x5C then [] else [c])"
| "unescape (c # d # cs) =
     (if c = CHR 0x5C then (if d = CHR 0x5C then d # unescape cs else unescape (d # cs))
      else c # unescape (d # cs))"

text \<open>After \<open>[\<close>: \<open>(-?\d+(?:\.\d+)?)\]\<close>, giving the number's text and what follows.\<close>

definition digitsName :: "string \<Rightarrow> (string \<times> string) option" where
  "digitsName cs =
     (if takeWhile isDigit cs = [] then None
      else Some (takeWhile isDigit cs, dropWhile isDigit cs))"

definition unsignedName :: "string \<Rightarrow> (string \<times> string) option" where
  "unsignedName cs =
     (case digitsName cs of
        None \<Rightarrow> None
      | Some (ds, r1) \<Rightarrow>
          (case r1 of
             [] \<Rightarrow> None
           | c # r2 \<Rightarrow>
               if c = CHR '']'' then Some (ds, r2)
               else if c = CHR ''.''
               then (case digitsName r2 of
                       None \<Rightarrow> None
                     | Some (fs, r3) \<Rightarrow>
                         (case r3 of
                            [] \<Rightarrow> None
                          | c' # r4 \<Rightarrow>
                              if c' = CHR '']'' then Some (ds @ c # fs, r4) else None))
               else None))"

definition numberName :: "string \<Rightarrow> (string \<times> string) option" where
  "numberName cs =
     (case cs of
        [] \<Rightarrow> None
      | c # r \<Rightarrow>
          if c = CHR ''-'' then map_option (\<lambda>(n, rest). (c # n, rest)) (unsignedName r)
          else unsignedName cs)"

text \<open>After \<open>[\<close>: the number or the quoted string, unescaped.\<close>

definition bracketName :: "string \<Rightarrow> (string \<times> string) option" where
  "bracketName cs =
     (case numberName cs of
        Some r \<Rightarrow> Some r
      | None \<Rightarrow>
          (case cs of
             [] \<Rightarrow> None
           | q # rest \<Rightarrow>
               if isQuote q
               then map_option (\<lambda>(sub, r). (unescape sub, r)) (quotedName q rest)
               else None))"

text \<open>The lookahead \<open>(?=(?:\.|\[\])(?:\.|\[\]|$))\<close>\<close>

definition emptyFollows :: "string \<Rightarrow> bool" where
  "emptyFollows r = (r = [] \<or> take 1 r = ''.'' \<or> take 2 r = ''[]'')"

definition emptyAhead :: "string \<Rightarrow> bool" where
  "emptyAhead s =
     (if take 1 s = ''.'' then emptyFollows (drop 1 s)
      else if take 2 s = ''[]'' then emptyFollows (drop 2 s)
      else False)"

text \<open>The names \<open>string.replace(rePropName, ...)\<close> pushes.\<close>

function propNames :: "string \<Rightarrow> string list" where
  "propNames [] = []"
| "propNames (c # cs) =
     (if \<not> isSpecial c
      then takeWhile (\<lambda>x. \<not> isSpecial x) (c # cs)
           # propNames (dropWhile (\<lambda>x. \<not> isSpecial x) cs)
      else (case (if c = CHR ''['' then bracketName cs else None) of
              Some (name, rest) \<Rightarrow> name # propNames rest
            | None \<Rightarrow>
                if emptyAhead (c # cs) then [] # propNames cs else propNames cs))"
  by pat_completeness auto
termination
proof (relation "measure length")
  show "wf (measure length)" by simp
next
  fix c cs
  show "(dropWhile (\<lambda>x. \<not> isSpecial x) cs, c # cs) \<in> measure length"
    by (simp add: le_imp_less_Suc length_dropWhile_le)
next
  fix c cs x2 x y
  assume "(if c = CHR ''['' then bracketName cs else None) = Some x2" "(x, y) = x2"
  then have b: "bracketName cs = Some (x, y)" by (auto split: if_splits)
  have digits: "length r \<le> length s" if "digitsName s = Some (ds, r)" for s ds r
    using that by (auto simp: digitsName_def length_dropWhile_le split: if_splits)
  have unsigned: "length r \<le> length s" if "unsignedName s = Some (n, r)" for s n r
  proof -
    from that obtain ds r1 where d: "digitsName s = Some (ds, r1)"
      by (auto simp: unsignedName_def split: option.splits)
    from that d obtain a r2 where r1: "r1 = a # r2"
      by (cases r1) (auto simp: unsignedName_def)
    show ?thesis
    proof (cases "a = CHR '']''")
      case True
      with that d r1 digits [OF d] show ?thesis by (simp add: unsignedName_def)
    next
      case False
      with that d r1 obtain fs r3 where f: "digitsName r2 = Some (fs, r3)"
        by (auto simp: unsignedName_def split: option.splits if_splits)
      from that d r1 False f have "length r \<le> length r3"
        by (cases r3) (auto simp: unsignedName_def split: if_splits)
      with digits [OF d] digits [OF f] r1 show ?thesis by simp
    qed
  qed
  have number: "length r \<le> length s" if "numberName s = Some (n, r)" for s n r
    using that
    by (cases s) (auto simp: numberName_def le_SucI split: if_splits dest!: unsigned)
  have quoted: "length r \<le> length s" if "quotedName q s = Some (sub, r)" for q s sub r
    using that
    by (induction q s arbitrary: sub rule: quotedName.induct)
      (auto simp: le_SucI split: if_splits list.splits)
  have "length y \<le> length cs"
  proof (cases "numberName cs")
    case (Some r)
    with b have "numberName cs = Some (x, y)" by (simp add: bracketName_def)
    then show ?thesis by (rule number)
  next
    case None
    with b obtain q cs' sub where "cs = q # cs'" "quotedName q cs' = Some (sub, y)"
      by (cases cs) (auto simp: bracketName_def split: if_splits)
    with quoted [of q cs' sub y] show ?thesis by simp
  qed
  then show "(y, c # cs) \<in> measure length" by simp
qed simp_all

text \<open>\<open>stringToPath\<close>: the names, after an empty first name when the string starts with a dot.\<close>

definition stringToPath :: "string \<Rightarrow> string list" where
  "stringToPath s = (if take 1 s = ''.'' then [[]] else []) @ propNames s"

text \<open>
  \<open>reIsDeepProp.test\<close>: somewhere a dot, or \<open>[\<close> before \<open>[^[\]]*\]\<close> or before a
  quoted string and \<open>]\<close>.
\<close>

definition bracketClosed :: "string \<Rightarrow> bool" where
  "bracketClosed cs =
     (case dropWhile (\<lambda>c. c \<noteq> CHR ''['' \<and> c \<noteq> CHR '']'') cs of
        [] \<Rightarrow> False
      | c # rest \<Rightarrow> c = CHR '']'')"

definition quotedClosed :: "string \<Rightarrow> bool" where
  "quotedClosed cs =
     (case cs of [] \<Rightarrow> False | q # rest \<Rightarrow> isQuote q \<and> quotedName q rest \<noteq> None)"

fun isDeepProp :: "string \<Rightarrow> bool" where
  "isDeepProp [] = False"
| "isDeepProp (c # cs) =
     (c = CHR ''.'' \<or> (c = CHR ''['' \<and> (bracketClosed cs \<or> quotedClosed cs)) \<or> isDeepProp cs)"

fun ownKeys :: "jsval \<Rightarrow> string list" where
  "ownKeys (JObj _ ps) = map fst ps"
| "ownKeys _ = []"

text \<open>
  lodash's \<open>isKey\<close> on a string (\<open>value in Object(object)\<close> can only hold of a deep
  string when it is an own key) and \<open>castPath\<close>: a key is the one-element path,
  any other string is read by \<open>stringToPath\<close>. An \<open>undefined\<close> path is the one key
  \<open>undefined\<close>.
\<close>

definition isKey :: "string \<Rightarrow> jsval \<Rightarrow> bool" where
  "isKey s obj = (isPlainProp s \<or> \<not> isDeepProp s \<or> s \<in> set (ownKeys obj))"

definition castPath :: "string option \<Rightarrow> jsval \<Rightarrow> string list" where
  "castPath path obj =
     (case path of
        None \<Rightarrow> [''undefined'']
      | Some s \<Rightarrow> if isKey s obj then [s] else stringToPath s)"

text \<open>
  lodash's \<open>baseSet\<close> along a list of keys. At an inner key the value found there is kept
  when it is an object, and replaced by a new array (next key an index) or a new object
  otherwise. A function inherited from the prototype is an object to lodash: it becomes
  an own property, and what is set on it is not seen in this value. (Later lodash
  releases refuse the keys \<open>__proto__\<close>, \<open>constructor\<close> and \<open>prototype\<close>; that
  guard is not modelled.)
\<close>

fun baseSet :: "jsval \<Rightarrow> string list \<Rightarrow> jsval \<Rightarrow> jsval" where
  "baseSet (JObj kd ps) [k] v = JObj kd (assignKey k v ps)"
| "baseSet (JObj kd ps) (k # k' # ks) v =
     (let objValue = readProp (JObj kd ps) k;
          newValue = (if isObject objValue then objValue
                      else if isIndex k' then JObj Array [] else JObj Plain [])
      in JObj kd (assignKey k (baseSet newValue (k' # ks) v) ps))"
| "baseSet obj ks v = obj"

text \<open>\<open>set(object, path, value)\<close> with a string (or \<open>undefined\<close>) path.\<close>

definition lodashSet :: "jsval \<Rightarrow> string option \<Rightarrow> jsval \<Rightarrow> jsval" where
  "lodashSet obj path v = baseSet obj (castPath path obj) v"

text \<open>\<open>get(object, [k1, k2])\<close>: stops with \<open>undefined\<close> at \<open>null\<close> or \<open>undefined\<close>.\<close>

fun baseGet :: "jsval \<Rightarrow> string list \<Rightarrow> jsval" where
  "baseGet obj [] = obj"
| "baseGet JNull (k # ks) = JUndefined"
| "baseGet JUndefined (k # ks) = JUndefined"
| "baseGet obj (k # ks) = baseGet (readProp obj k) ks"

section \<open>Flattening validation errors\<close>

text \<open>
  A tv4 \<open>ValidationError\<close>. Of \<open>params\<close> the code reads \<open>params.key\<close> only, which tv4
  sets to a property name; \<open>subErrors\<close> is \<open>None\<close> for \<open>null\<close> or a missing field.
\<close>

datatype verror =
  ValidationError
    (message: string)
    (params: "(string \<times> string) list")
    (dataPath: string)
    (schemaPath: string)
    (subErrors: "verror list option")

text \<open>\<open>RegExp.test\<close> of a literal pattern: the pattern occurs somewhere in the string.\<close>

fun regexTest :: "string \<Rightarrow> string \<Rightarrow> bool" where
  "regexTest pat [] = (pat = [])"
| "regexTest pat (c # cs) = (take (length pat) (c # cs) = pat \<or> regexTest pat cs)"

text \<open>\<open>dataPath.substring(1).replace(/\//g, '.')\<close>\<close>

definition dataPathToPath :: "string \<Rightarrow> string" where
  "dataPathToPath dp = map (\<lambda>c. if c = CHR ''/'' then CHR ''.'' else c) (drop 1 dp)"

text \<open>The path of one node: \<open>params.key\<close> for a required error, else from \<open>dataPath\<close>.\<close>

definition errorPath :: "verror \<Rightarrow> string option" where
  "errorPath e =
     (if regexTest ''required'' (schemaPath e)
      then map_of (params e) ''key''
      else Some (dataPathToPath (dataPath e)))"

text \<open>\<open>_makeHashOutOfValidateErrors(accumulatedErrors, validateError)\<close>\<close>

fun makeHashOutOfValidateErrors :: "jsval \<Rightarrow> verror \<Rightarrow> jsval" where
  "makeHashOutOfValidateErrors accumulatedErrors (ValidationError msg ps dp sp sub) =
     (let acc = lodashSet accumulatedErrors
                  (errorPath (ValidationError msg ps dp sp sub)) (JStr msg)
      in case sub of
           None \<Rightarrow> acc
         | Some es \<Rightarrow> foldl (\<lambda>a e. makeHashOutOfValidateErrors a e) acc es)"

section \<open>Combining composed schemas\<close>

text \<open>
  What the code reads of a JSON schema: the \<open>$ref\<close> of every entry of \<open>allOf\<close>
  (\<open>None\<close> for an entry without one) and the \<open>default\<close> of every entry of
  \<open>properties\<close>. The other keywords travel in the record's extension.
\<close>

datatype property = Property (defaultOf: "jsval option")

record schema =
  allOf :: "string option list option"
  properties :: "(string \<times> property) list option"

text \<open>What a \<open>catch\<close> can receive besides an \<open>RpcError\<close>.\<close>

datatype fault = TypeError | RangeError | ParseFault string | HandlerFault string

text \<open>\<open>schema.properties || {}\<close>\<close>

definition propertiesOrEmpty :: "'a schema_scheme \<Rightarrow> (string \<times> property) list" where
  "propertiesOrEmpty sc = (case properties sc of None \<Rightarrow> [] | Some ps \<Rightarrow> ps)"

text \<open>
  \<open>_resolveAndCombineAllOfs(schema)\<close>. \<open>getSchema\<close> is tv4's store of named schemas.
  The first argument is the number of stack frames left: a cyclic reference recurses
  until none is left, which JavaScript reports as a \<open>RangeError\<close>. Reading \<open>allOf\<close> of
  a schema that is not in the store, or looking up an entry without \<open>$ref\<close>, is a
  \<open>TypeError\<close>.
\<close>

fun resolveAndCombineAllOfs ::
  "nat \<Rightarrow> (string \<Rightarrow> schema option) \<Rightarrow> schema \<Rightarrow> fault + schema" where
  "resolveAndCombineAllOfs 0 getSchema sc = Inl RangeError"
| "resolveAndCombineAllOfs (Suc d) getSchema sc =
     (case allOf sc of
        None \<Rightarrow> Inr sc
      | Some refs \<Rightarrow>
          (case foldl
                  (\<lambda>prev curr.
                     case prev of
                       Inl f \<Rightarrow> Inl f
                     | Inr p \<Rightarrow>
                         (case curr of
                            None \<Rightarrow> Inl TypeError
                          | Some ref \<Rightarrow>
                              (case getSchema ref of
                                 None \<Rightarrow> Inl TypeError
                               | Some schemaOfRef \<Rightarrow>
                                   (case resolveAndCombineAllOfs d getSchema schemaOfRef of
                                      Inl f \<Rightarrow> Inl f
                                    | Inr resolvedSchemaOfRef \<Rightarrow>
                                        Inr (assign p (propertiesOrEmpty resolvedSchemaOfRef))))))
                  (Inr (propertiesOrEmpty sc)) refs of
             Inl f \<Rightarrow> Inl f
           | Inr combinedProperties \<Rightarrow> Inr (sc\<lparr>properties := Some combinedProperties\<rparr>)))"

section \<open>The request pipeline\<close>

text \<open>\<open>class RpcError\<close>, with the constructor's argument order.\<close>

datatype rpcError = RpcError (data: jsval) (rpcMessage: string) (code: int)

text \<open>How a call of a handler ends: a value, an \<open>RpcError\<close>, another fault, or never.\<close>

datatype outcome = Returns jsval | ThrowsRpc rpcError | Throws fault | Pending

text \<open>
  A loaded method module: the exported function and its \<open>paramsSchema\<close> property.
  (An export that is not callable is a handler that throws a \<open>TypeError\<close>.)
\<close>

record rpcModule =
  handler :: "jsval \<Rightarrow> outcome"
  paramsSchema :: "schema option"

text \<open>
  What \<open>methods[name]\<close> finds: \<open>methods\<close> is a plain object, so a name that is not
  loaded is still found when \<open>Object.prototype\<close> has it.
\<close>

datatype methodValue = Loaded rpcModule | Inherited string

definition lookupMethod :: "(string \<times> rpcModule) list \<Rightarrow> string \<Rightarrow> methodValue option" where
  "lookupMethod methods name =
     (case map_of methods name of
        Some m \<Rightarrow> Some (Loaded m)
      | None \<Rightarrow> if name \<in> set objectPrototype then Some (Inherited name) else None)"

fun methodParamsSchema :: "methodValue \<Rightarrow> schema option" where
  "methodParamsSchema (Loaded m) = paramsSchema m"
| "methodParamsSchema (Inherited name) = None"

text \<open>The collaborators of the pipeline: micro, tv4, serialize-error, the runtime.\<close>

record 'body env =
  production :: bool
  json :: "'body \<Rightarrow> fault + jsval"
  serializeError :: "fault \<Rightarrow> jsval"
  validateRequest :: "jsval \<Rightarrow> verror option"
  validateResult :: "jsval \<Rightarrow> schema \<Rightarrow> verror option"
  getSchema :: "string \<Rightarrow> schema option"
  stackDepth :: nat
  callInherited :: "string \<Rightarrow> jsval \<Rightarrow> outcome"

record 'body request =
  contentType :: "string option"
  body :: "'body"

datatype response =
    ResultResponse (result: jsval) (responseId: jsval)
  | ErrorResponse (error: rpcError) (responseId: jsval)

text \<open>
  How the returned promise ends: the request went to \<open>fn\<close>, a response, a fault that
  escaped, or never.
\<close>

datatype settled = PassedToFn | Responds response | Rejects fault | NeverSettles

record run =
  settled :: settled
  dispatched :: nat
  logged :: "jsval list"

text \<open>What a \<open>throw\<close> inside the \<open>try\<close> block carries.\<close>

datatype thrown = ThrownRpc rpcError | ThrownFault fault

text \<open>The member read \<open>v.k\<close>, a \<open>TypeError\<close> on \<open>null\<close> and \<open>undefined\<close>.\<close>

fun member :: "jsval \<Rightarrow> string \<Rightarrow> fault + jsval" where
  "member JNull k = Inl TypeError"
| "member JUndefined k = Inl TypeError"
| "member v k = Inr (readProp v k)"

text \<open>JavaScript's truthiness.\<close>

fun truthy :: "jsval \<Rightarrow> bool" where
  "truthy JUndefined = False"
| "truthy JNull = False"
| "truthy (JBool b) = b"
| "truthy (JNum n) = (n \<noteq> 0)"
| "truthy (JStr s) = (s \<noteq> [])"
| "truthy _ = True"

text \<open>\<open>js.params || {}\<close>\<close>

definition paramsOrEmpty :: "jsval \<Rightarrow> jsval" where
  "paramsOrEmpty js = (if truthy (readProp js ''params'') then readProp js ''params'' else emptyObject)"

text \<open>
  The property key a value is converted to in \<open>methods[js.method]\<close>: JavaScript's
  \<open>ToString\<close> on a parsed JSON value. A number is printed in decimal, which is
  what \<open>ToString\<close> does for the integers of the model.
\<close>

fun showNat :: "nat \<Rightarrow> string" where
  "showNat n =
     (if n < 10 then [char_of (48 + n)]
      else showNat (n div 10) @ [char_of (48 + n mod 10)])"

definition showInt :: "int \<Rightarrow> string" where
  "showInt i = (if i < 0 then CHR ''-'' # showNat (nat (- i)) else showNat (nat i))"

fun toPropertyKey :: "jsval \<Rightarrow> string"
  and joinElements :: "(string \<times> jsval) list \<Rightarrow> string" where
  "toPropertyKey JUndefined = ''undefined''"
| "toPropertyKey JNull = ''null''"
| "toPropertyKey (JBool b) = (if b then ''true'' else ''false'')"
| "toPropertyKey (JNum n) = showInt n"
| "toPropertyKey (JStr s) = s"
| "toPropertyKey (JBuiltin n) = ''function '' @ n @ ''() { [native code] }''"
| "toPropertyKey (JObj Plain ps) = ''[object Object]''"
| "toPropertyKey (JObj Array ps) = joinElements ps"
| "joinElements [] = []"
| "joinElements ((k, v) # ps) =
     (case v of JNull \<Rightarrow> [] | JUndefined \<Rightarrow> [] | _ \<Rightarrow> toPropertyKey v)
     @ (if ps = [] then [] else CHR '','' # joinElements ps)"

text \<open>
  The default-injection loop over \<open>Object.keys(combinedSchema.properties || {})\<close>:
  a property without \<open>default\<close> is skipped, a value found by \<open>get\<close> is kept, and
  otherwise \<open>set\<close> writes the default (creating \<open>js.params\<close> when it is missing).
\<close>

definition defaultProperty :: "jsval \<Rightarrow> string \<times> property \<Rightarrow> jsval" where
  "defaultProperty js pp =
     (case defaultOf (snd pp) of
        None \<Rightarrow> js
      | Some d \<Rightarrow>
          if d = JUndefined then js
          else if baseGet js [''params'', fst pp] \<noteq> JUndefined then js
          else baseSet js [''params'', fst pp] d)"

definition defaultParams ::
  "'b env \<Rightarrow> string list \<Rightarrow> methodValue \<Rightarrow> jsval \<Rightarrow> jsval \<Rightarrow> fault + jsval" where
  "defaultParams e dontDefault m method js =
     (case methodParamsSchema m of
        None \<Rightarrow> Inr js
      | Some sc \<Rightarrow>
          if (case method of JStr name \<Rightarrow> name \<in> set dontDefault | _ \<Rightarrow> False) then Inr js
          else (case resolveAndCombineAllOfs (stackDepth e) (getSchema e) sc of
                  Inl f \<Rightarrow> Inl f
                | Inr combinedSchema \<Rightarrow>
                    Inr (foldl defaultProperty js (propertiesOrEmpty combinedSchema))))"

text \<open>\<open>methods[js.method](js.params, req, res)\<close>\<close>

definition callMethod :: "'b env \<Rightarrow> methodValue \<Rightarrow> jsval \<Rightarrow> outcome" where
  "callMethod e m ps =
     (case m of
        Loaded md \<Rightarrow> handler md ps
      | Inherited name \<Rightarrow>
          if name = ''__proto__'' then Throws TypeError else callInherited e name ps)"

definition throwRpc :: "jsval \<Rightarrow> jsval \<Rightarrow> string \<Rightarrow> int \<Rightarrow> jsval \<times> nat \<times> (thrown + response) option" where
  "throwRpc js d msg c = (js, 0, Some (Inl (ThrownRpc (RpcError d msg c))))"

text \<open>
  The \<open>try\<close> block after the body was parsed: the value of \<open>js\<close> when it is left, the
  number of handler calls made, and what it returned or threw (\<open>None\<close>: the handler
  never settled).
\<close>

definition tryBlock ::
  "(string \<times> rpcModule) list \<Rightarrow> string list \<Rightarrow> 'b env \<Rightarrow> jsval
     \<Rightarrow> jsval \<times> nat \<times> (thrown + response) option" where
  "tryBlock methods dontDefault e js =
     (case validateRequest e js of
        Some err \<Rightarrow>
          throwRpc js (makeHashOutOfValidateErrors emptyObject err) ''Invalid request'' (- 32600)
      | None \<Rightarrow>
     (case member js ''method'' of
        Inl f \<Rightarrow> (js, 0, Some (Inl (ThrownFault f)))
      | Inr method \<Rightarrow>
     (case lookupMethod methods (toPropertyKey method) of
        None \<Rightarrow> throwRpc js JNull ''Method not found'' (- 32601)
      | Some m \<Rightarrow>
     (case defaultParams e dontDefault m method js of
        Inl f \<Rightarrow> (js, 0, Some (Inl (ThrownFault f)))
      | Inr js' \<Rightarrow>
     (case (case methodParamsSchema m of
              None \<Rightarrow> None
            | Some sc \<Rightarrow> validateResult e (paramsOrEmpty js') sc) of
        Some err \<Rightarrow>
          throwRpc js' (makeHashOutOfValidateErrors emptyObject err) ''Invalid params'' (- 32602)
      | None \<Rightarrow>
     (case callMethod e m (readProp js' ''params'') of
        Returns r \<Rightarrow> (js', 1, Some (Inr (ResultResponse r (readProp js' ''id''))))
      | ThrowsRpc err \<Rightarrow> (js', 1, Some (Inl (ThrownRpc err)))
      | Throws f \<Rightarrow> (js', 1, Some (Inl (ThrownFault f)))
      | Pending \<Rightarrow> (js', 1, None)))))))"

text \<open>The \<open>catch\<close> block, entered with the current \<open>js\<close>.\<close>

definition catchBlock :: "'b env \<Rightarrow> jsval \<Rightarrow> thrown \<Rightarrow> nat \<Rightarrow> run" where
  "catchBlock e js t n =
     (let logs = (case t of
                    ThrownRpc err \<Rightarrow> []
                  | ThrownFault f \<Rightarrow>
                      if production e
                      then [JObj Plain [(''message'', JStr ''Error occured in RPC function''),
                                        (''error'', serializeError e f)]]
                      else []);
          rpcErr = (case t of
                      ThrownRpc err \<Rightarrow> err
                    | ThrownFault f \<Rightarrow>
                        RpcError (if production e then JBool False else serializeError e f)
                          ''Internal error'' (- 32603))
      in case member js ''id'' of
           Inl f \<Rightarrow> \<lparr>settled = Rejects f, dispatched = n, logged = logs\<rparr>
         | Inr i \<Rightarrow> \<lparr>settled = Responds (ErrorResponse rpcErr i), dispatched = n, logged = logs\<rparr>)"

text \<open>The function \<open>handleRpcs(rpcDir, {dontDefault})(fn)\<close> returns, on one request.\<close>

definition handleRpcs ::
  "(string \<times> rpcModule) list \<Rightarrow> string list \<Rightarrow> 'b env \<Rightarrow> 'b request \<Rightarrow> run" where
  "handleRpcs methods dontDefault e req =
     (if contentType req \<noteq> Some ''application/json''
      then \<lparr>settled = PassedToFn, dispatched = 0, logged = []\<rparr>
      else (case json e (body req) of
              Inl err \<Rightarrow>
                catchBlock e (JObj Plain [(''id'', JNull)])
                  (ThrownRpc (RpcError (serializeError e err) ''Parse error'' (- 32700))) 0
            | Inr js \<Rightarrow>
                (case tryBlock methods dontDefault e js of
                   (js', n, None) \<Rightarrow> \<lparr>settled = NeverSettles, dispatched = n, logged = []\<rparr>
                 | (js', n, Some (Inl t)) \<Rightarrow> catchBlock e js' t n
                 | (js', n, Some (Inr resp)) \<Rightarrow>
                     \<lparr>settled = Responds resp, dispatched = n, logged = []\<rparr>)))"

text \<open>
  The parts of the fold in \<open>_resolveAndCombineAllOfs\<close>, named: what one entry of
  \<open>allOf\<close> resolves to, one step of the \<open>reduce\<close>, and the property lists of all
  entries in the order of \<open>allOf\<close>.
\<close>

definition resolvedPropertiesOfRef ::
  "nat \<Rightarrow> (string \<Rightarrow> schema option) \<Rightarrow> string option \<Rightarrow> (fault + (string \<times> property) list)" where
  "resolvedPropertiesOfRef d schemas entry =
     (case entry of
        None \<Rightarrow> Inl TypeError
      | Some ref \<Rightarrow>
          (case schemas ref of
             None \<Rightarrow> Inl TypeError
           | Some schemaOfRef \<Rightarrow>
               (case resolveAndCombineAllOfs d schemas schemaOfRef of
                  Inl f \<Rightarrow> Inl f
                | Inr resolvedSchemaOfRef \<Rightarrow> Inr (propertiesOrEmpty resolvedSchemaOfRef))))"

definition combineStep ::
  "nat \<Rightarrow> (string \<Rightarrow> schema option) \<Rightarrow> fault + (string \<times> property) list \<Rightarrow> string option
     \<Rightarrow> fault + (string \<times> property) list" where
  "combineStep d schemas prev entry =
     (case prev of
        Inl f \<Rightarrow> Inl f
      | Inr p \<Rightarrow>
          (case resolvedPropertiesOfRef d schemas entry of
             Inl f \<Rightarrow> Inl f
           | Inr q \<Rightarrow> Inr (assign p q)))"

definition composedProperties ::
  "nat \<Rightarrow> (string \<Rightarrow> schema option) \<Rightarrow> string option list \<Rightarrow> (string \<times> property) list list" where
  "composedProperties d schemas refs =
     map (\<lambda>ref. case resolvedPropertiesOfRef d schemas ref of Inl f \<Rightarrow> [] | Inr q \<Rightarrow> q) refs"

text \<open>
  The nodes of an error tree in depth-first order, a node before its \<open>subErrors\<close> and
  these from left to right; and the one assignment the flattener makes for a node.
\<close>

fun traversal :: "verror \<Rightarrow> verror list" where
  "traversal (ValidationError msg ps dp sp sub) =
     ValidationError msg ps dp sp sub
     # (case sub of None \<Rightarrow> [] | Some es \<Rightarrow> concat (map traversal es))"

definition setError :: "jsval \<Rightarrow> verror \<Rightarrow> jsval" where
  "setError acc n = lodashSet acc (errorPath n) (JStr (message n))"

section \<open>An example service\<close>

text \<open>
  One instance of the collaborators, used to run the pipeline on concrete requests.
  A body is what micro's \<open>json\<close> makes of it: \<open>None\<close> is a body that does not parse.
  The envelope validator reports a missing \<open>method\<close> the way tv4 reports a missing
  required property; the parameter validator wants \<open>name\<close>, when present, to be a
  string. Inherited functions are called with \<open>methods\<close> as \<open>this\<close>.
\<close>

definition exampleValidateRequest :: "jsval \<Rightarrow> verror option" where
  "exampleValidateRequest js =
     (case js of
        JObj Plain ps \<Rightarrow>
          (if map_of ps ''method'' = None
           then Some (ValidationError ''Method is required'' [(''key'', ''method'')]
                        [] ''/required/0'' None)
           else None)
      | _ \<Rightarrow> Some (ValidationError ''Invalid type'' [] [] ''/type'' None))"

definition exampleValidateResult :: "jsval \<Rightarrow> schema \<Rightarrow> verror option" where
  "exampleValidateResult v sc =
     (case readProp v ''name'' of
        JUndefined \<Rightarrow> None
      | JStr s \<Rightarrow> None
      | _ \<Rightarrow> Some (ValidationError ''Invalid type: number (expected string)'' []
                     ''/name'' ''/properties/name/type'' None))"

definition exampleCallInherited :: "string \<Rightarrow> jsval \<Rightarrow> outcome" where
  "exampleCallInherited name ps =
     (if name \<in> set [''toString'', ''toLocaleString''] then Returns (JStr ''[object Object]'')
      else if name \<in> set [''__lookupGetter__'', ''__lookupSetter__''] then Returns JUndefined
      else if name \<in> set [''hasOwnProperty'', ''isPrototypeOf'', ''propertyIsEnumerable'']
        then Returns (JBool False)
      else if name = ''constructor'' then Returns (if isObject ps then ps else emptyObject)
      else if name = ''valueOf'' then Returns emptyObject
      else Throws TypeError)"

definition baseSchema :: schema where
  "baseSchema =
     \<lparr>allOf = None,
      properties = Some [(''name'', Property (Some (JStr ''base''))),
                         (''lang'', Property (Some (JStr ''en'')))]\<rparr>"

definition greetSchema :: schema where
  "greetSchema =
     \<lparr>allOf = None, properties = Some [(''name'', Property (Some (JStr ''world'')))]\<rparr>"

definition derivedSchema :: schema where
  "derivedSchema =
     \<lparr>allOf = Some [Some ''base''],
      properties = Some [(''name'', Property (Some (JStr ''derived'')))]\<rparr>"

definition exampleEnv :: "jsval option env" where
  "exampleEnv =
     \<lparr>production = False,
      json = (\<lambda>b. case b of None \<Rightarrow> Inl (ParseFault ''Invalid JSON'') | Some js \<Rightarrow> Inr js),
      serializeError =
        (\<lambda>f. case f of
                TypeError \<Rightarrow> JStr ''TypeError''
              | RangeError \<Rightarrow> JStr ''RangeError''
              | ParseFault s \<Rightarrow> JStr s
              | HandlerFault s \<Rightarrow> JStr s),
      validateRequest = exampleValidateRequest,
      validateResult = exampleValidateResult,
      getSchema = map_of [(''base'', baseSchema), (''greet'', greetSchema)],
      stackDepth = Suc (Suc (Suc (Suc 0))),
      callInherited = exampleCallInherited\<rparr>"

definition greet :: rpcModule where
  "greet =
     \<lparr>handler = (\<lambda>ps. case readProp ps ''name'' of
                         JStr n \<Rightarrow> Returns (JStr (''hello '' @ n))
                       | _ \<Rightarrow> Throws (HandlerFault ''name is not a string'')),
      paramsSchema = Some greetSchema\<rparr>"

definition fails :: rpcModule where
  "fails =
     \<lparr>handler = (\<lambda>ps. case readProp ps ''name'' of
                         JStr n \<Rightarrow> ThrowsRpc (RpcError (JStr n) ''Not allowed'' 403)
                       | _ \<Rightarrow> Throws (HandlerFault ''boom'')),
      paramsSchema = Some derivedSchema\<rparr>"

definition exampleMethods :: "(string \<times> rpcModule) list" where
  "exampleMethods = [(''greet'', greet), (''fails'', fails)]"

text \<open>An error tree whose three nodes all address the field \<open>title\<close>.\<close>

definition titleErrors :: verror where
  "titleErrors =
     ValidationError ''Title is invalid'' [] ''/title'' ''/allOf/0'' 
       (Some [ValidationError ''Title must be at least 1 characters long'' []
                ''/title'' ''/allOf/0/properties/title/minLength'' None,
              ValidationError ''Title is required'' [(''key'', ''title'')]
                [] ''/allOf/1/required/0'' None])"

definition rpcRequest :: "jsval \<Rightarrow> jsval option request" where
  "rpcRequest js = \<lparr>contentType = Some ''application/json'', body = Some js\<rparr>"


definition callFails :: jsval where
  "callFails =
     JObj Plain [(''jsonrpc'', JStr ''2.0''), (''method'', JStr ''fails''), (''id'', JNum 3)]"

definition callUnknown :: jsval where
  "callUnknown =
     JObj Plain [(''jsonrpc'', JStr ''2.0''), (''method'', JStr ''nope''), (''id'', JNum 9)]"

definition callGreet :: jsval where
  "callGreet =
     JObj Plain [(''jsonrpc'', JStr ''2.0''), (''method'', JStr ''greet''),
                 (''params'', JObj Plain []), (''id'', JNum 1)]"

text \<open>
  A method whose schema gives a default to a parameter named \<open>toString\<close>; the handler
  returns the parameters it is called with.
\<close>

definition describeSchema :: schema where
  "describeSchema =
     \<lparr>allOf = None,
      properties = Some [(''greeting'', Property (Some (JStr ''hello''))),
                         (''toString'', Property (Some (JStr ''x'')))]\<rparr>"

definition describe :: rpcModule where
  "describe = \<lparr>handler = (\<lambda>ps. Returns ps), paramsSchema = Some describeSchema\<rparr>"

definition describeMethods :: "(string \<times> rpcModule) list" where
  "describeMethods = [(''describe'', describe)]"

definition callDescribe :: jsval where
  "callDescribe =
     JObj Plain [(''jsonrpc'', JStr ''2.0''), (''method'', JStr ''describe''), (''id'', JNum 4)]"

section \<open>The envelope schema\<close>










section \<open>Composition: the combined properties\<close>

lemma map_of_assignKey: "map_of (assignKey k v ps) = (map_of ps)(k \<mapsto> v)"
  by (induction ps) (auto simp: fun_eq_iff)

lemma keys_assignKey: "fst ` set (assignKey k v ps) = insert k (fst ` set ps)"
proof -
  have "dom (map_of (assignKey k v ps)) = insert k (dom (map_of ps))"
    by (simp add: map_of_assignKey)
  then show ?thesis by (simp only: dom_map_of_conv_image_fst)
qed

lemma distinct_assignKey: "distinct (map fst ps) \<Longrightarrow> distinct (map fst (assignKey k v ps))"
proof (induction ps)
  case Nil
  then show ?case by simp
next
  case (Cons p ps)
  obtain k' v' where p: "p = (k', v')" by (cases p)
  show ?case
  proof (cases "k = k'")
    case True
    with Cons.prems p show ?thesis by simp
  next
    case False
    have "k' \<notin> fst ` set (assignKey k v ps)"
      using Cons.prems p False by (simp add: keys_assignKey)
    with Cons p False show ?thesis by simp
  qed
qed

lemma assign_Cons: "assign prev ((k, v) # src) = assign (assignKey k v prev) src"
  by (simp add: assign_def)

lemma assign_Nil: "assign prev [] = prev"
  by (simp add: assign_def)

lemma distinct_assign: "distinct (map fst prev) \<Longrightarrow> distinct (map fst (assign prev src))"
proof (induction src arbitrary: prev)
  case Nil
  then show ?case by (simp add: assign_Nil)
next
  case (Cons a src)
  obtain k v where a: "a = (k, v)" by (cases a)
  show ?case unfolding a assign_Cons
    by (rule Cons.IH) (rule distinct_assignKey [OF Cons.prems])
qed

lemma map_of_assign:
  "distinct (map fst src) \<Longrightarrow> map_of (assign prev src) = map_of prev ++ map_of src"
proof (induction src arbitrary: prev)
  case Nil
  then show ?case by (simp add: assign_Nil)
next
  case (Cons a src)
  obtain k v where a: "a = (k, v)" by (cases a)
  from Cons.prems a have k: "k \<notin> fst ` set src" and d: "distinct (map fst src)" by auto
  have nd: "k \<notin> dom (map_of src)" using k by (simp add: dom_map_of_conv_image_fst)
  have "map_of (assign prev (a # src)) = (map_of prev)(k \<mapsto> v) ++ map_of src"
    unfolding a assign_Cons by (simp only: Cons.IH [OF d] map_of_assignKey)
  also have "\<dots> = (map_of prev ++ map_of src)(k \<mapsto> v)"
    using nd by (rule map_add_upd_left)
  also have "\<dots> = map_of prev ++ map_of (a # src)"
    by (simp add: a)
  finally show ?case .
qed

lemma keys_assign: "fst ` set (assign prev src) = fst ` set prev \<union> fst ` set src"
proof (induction src arbitrary: prev)
  case Nil
  then show ?case by (simp add: assign_Nil)
next
  case (Cons a src)
  obtain k v where a: "a = (k, v)" by (cases a)
  show ?case unfolding a assign_Cons Cons.IH by (auto simp: keys_assignKey)
qed

lemma resolve_Suc:
  "resolveAndCombineAllOfs (Suc d) schemas sc =
     (case allOf sc of
        None \<Rightarrow> Inr sc
      | Some refs \<Rightarrow>
          (case foldl (combineStep d schemas) (Inr (propertiesOrEmpty sc)) refs of
             Inl f \<Rightarrow> Inl f
           | Inr combinedProperties \<Rightarrow> Inr (sc\<lparr>properties := Some combinedProperties\<rparr>)))"
proof -
  have "(\<lambda>prev curr.
           case prev of
             Inl f \<Rightarrow> Inl f
           | Inr p \<Rightarrow>
               (case curr of
                  None \<Rightarrow> Inl TypeError
                | Some ref \<Rightarrow>
                    (case schemas ref of
                       None \<Rightarrow> Inl TypeError
                     | Some schemaOfRef \<Rightarrow>
                         (case resolveAndCombineAllOfs d schemas schemaOfRef of
                            Inl f \<Rightarrow> Inl f
                          | Inr resolvedSchemaOfRef \<Rightarrow>
                              Inr (assign p (propertiesOrEmpty resolvedSchemaOfRef))))))
        = combineStep d schemas"
    by (intro ext)
      (simp add: combineStep_def resolvedPropertiesOfRef_def split: sum.split option.split)
  then show ?thesis by (simp only: resolveAndCombineAllOfs.simps)
qed

lemma combineStep_Inl: "combineStep d schemas (Inl f) entry = Inl f"
  by (simp add: combineStep_def)

lemma combineStep_Inr:
  "combineStep d schemas (Inr p) entry =
     (case resolvedPropertiesOfRef d schemas entry of Inl f \<Rightarrow> Inl f | Inr q \<Rightarrow> Inr (assign p q))"
  by (simp add: combineStep_def)

lemma foldl_combineStep_Inl: "foldl (combineStep d schemas) (Inl f) refs = Inl f"
  by (induction refs) (simp_all add: combineStep_Inl)

lemma foldl_combineStep_Inr_iff:
  "(\<exists>ps. foldl (combineStep d schemas) (Inr p) refs = Inr ps)
     \<longleftrightarrow> (\<forall>ref \<in> set refs. \<exists>q. resolvedPropertiesOfRef d schemas ref = Inr q)"
proof (induction refs arbitrary: p)
  case Nil
  then show ?case by simp
next
  case (Cons r refs)
  show ?case
  proof (cases "resolvedPropertiesOfRef d schemas r")
    case (Inl f)
    then show ?thesis by (simp add: combineStep_Inr foldl_combineStep_Inl)
  next
    case (Inr q)
    then show ?thesis using Cons.IH [of "assign p q"] by (simp add: combineStep_Inr)
  qed
qed

lemma foldl_combineStep_distinct:
  "foldl (combineStep d schemas) (Inr p) refs = Inr ps \<Longrightarrow> distinct (map fst p)
     \<Longrightarrow> distinct (map fst ps)"
proof (induction refs arbitrary: p)
  case Nil
  then show ?case by simp
next
  case (Cons r refs)
  show ?case
  proof (cases "resolvedPropertiesOfRef d schemas r")
    case (Inl f)
    with Cons.prems show ?thesis by (simp add: combineStep_Inr foldl_combineStep_Inl)
  next
    case (Inr q)
    with Cons.prems have "foldl (combineStep d schemas) (Inr (assign p q)) refs = Inr ps"
      by (simp add: combineStep_Inr)
    then show ?thesis using Cons.IH Cons.prems(2) distinct_assign by blast
  qed
qed

lemma foldl_combineStep_map_of:
  "foldl (combineStep d schemas) (Inr p) refs = Inr ps
     \<Longrightarrow> \<forall>ref \<in> set refs. \<forall>q. resolvedPropertiesOfRef d schemas ref = Inr q \<longrightarrow> distinct (map fst q)
     \<Longrightarrow> map_of ps = foldl (\<lambda>m q. m ++ map_of q) (map_of p) (composedProperties d schemas refs)"
proof (induction refs arbitrary: p)
  case Nil
  then show ?case by (simp add: composedProperties_def)
next
  case (Cons r refs)
  show ?case
  proof (cases "resolvedPropertiesOfRef d schemas r")
    case (Inl f)
    with Cons.prems show ?thesis by (simp add: combineStep_Inr foldl_combineStep_Inl)
  next
    case (Inr q)
    with Cons.prems have 1: "foldl (combineStep d schemas) (Inr (assign p q)) refs = Inr ps"
      by (simp add: combineStep_Inr)
    have dq: "distinct (map fst q)" using Cons.prems(2) Inr by simp
    have "map_of ps = foldl (\<lambda>m q. m ++ map_of q) (map_of (assign p q)) (composedProperties d schemas refs)"
      using Cons.IH [OF 1] Cons.prems(2) by simp
    then show ?thesis using Inr dq by (simp add: composedProperties_def map_of_assign)
  qed
qed

lemma resolve_distinct:
  "resolveAndCombineAllOfs d schemas sc = Inr r \<Longrightarrow> distinct (map fst (propertiesOrEmpty sc))
     \<Longrightarrow> distinct (map fst (propertiesOrEmpty r))"
proof (cases d)
  case 0
  assume "resolveAndCombineAllOfs d schemas sc = Inr r"
  with 0 show ?thesis by simp
next
  case (Suc d')
  assume a: "resolveAndCombineAllOfs d schemas sc = Inr r"
    and b: "distinct (map fst (propertiesOrEmpty sc))"
  show ?thesis
  proof (cases "allOf sc")
    case None
    with a b Suc show ?thesis by (simp add: resolve_Suc)
  next
    case (Some refs)
    with a Suc obtain ps where
      f: "foldl (combineStep d' schemas) (Inr (propertiesOrEmpty sc)) refs = Inr ps"
      and r: "r = sc\<lparr>properties := Some ps\<rparr>"
      by (auto simp only: resolve_Suc option.case split: sum.splits)
    from foldl_combineStep_distinct [OF f b] r show ?thesis
      by (simp add: propertiesOrEmpty_def)
  qed
qed


lemma foldl_add_none:
  "\<forall>q \<in> set qs. map_of q k = None \<Longrightarrow> foldl (\<lambda>m q. m ++ map_of q) m0 qs k = m0 k"
  by (induction qs arbitrary: m0) (simp_all add: map_add_def)

lemma foldl_add_last:
  "map_of q k = Some v \<Longrightarrow> \<forall>q' \<in> set qs'. map_of q' k = None
     \<Longrightarrow> foldl (\<lambda>m q. m ++ map_of q) m0 (qs @ q # qs') k = Some v"
proof -
  assume q: "map_of q k = Some v" and rest: "\<forall>q' \<in> set qs'. map_of q' k = None"
  let ?f = "\<lambda>m q. m ++ map_of q"
  have "foldl ?f m0 (qs @ q # qs') k = foldl ?f (foldl ?f m0 qs ++ map_of q) qs' k"
    by simp
  also have "\<dots> = (foldl ?f m0 qs ++ map_of q) k"
    by (rule foldl_add_none [OF rest])
  also have "\<dots> = Some v"
    using q by (simp add: map_add_Some_iff)
  finally show ?thesis .
qed

lemma dom_foldl_add:
  "dom (foldl (\<lambda>m q. m ++ map_of q) m0 qs) = dom m0 \<union> (\<Union>q \<in> set qs. fst ` set q)"
  by (induction qs arbitrary: m0) (auto simp: dom_map_of_conv_image_fst)

text \<open>
  C1 (as the code has it). For a schema with \<open>allOf\<close>, resolution returns exactly when
  every entry names a stored schema that resolves one frame deeper. The returned
  properties are the schema's own overlaid by the resolved properties of the entries in
  their order: the keys are the union; an own property is kept only where no entry
  declares the key; where entries declare it, the last of them gives the value.
\<close>

theorem resolveAndCombineAllOfs_properties:
  assumes allOf: "allOf sc = Some refs"
    and wf: "\<forall>name s. schemas name = Some s \<longrightarrow> distinct (map fst (propertiesOrEmpty s))"
  shows "((\<exists>sc'. resolveAndCombineAllOfs (Suc d) schemas sc = Inr sc')
            \<longleftrightarrow> (\<forall>ref \<in> set refs. \<exists>q. resolvedPropertiesOfRef d schemas ref = Inr q))
       \<and> (\<forall>sc'. resolveAndCombineAllOfs (Suc d) schemas sc = Inr sc' \<longrightarrow>
             map_of (propertiesOrEmpty sc') =
               foldl (\<lambda>m q. m ++ map_of q) (map_of (propertiesOrEmpty sc))
                 (composedProperties d schemas refs)
           \<and> fst ` set (propertiesOrEmpty sc') =
               fst ` set (propertiesOrEmpty sc)
               \<union> (\<Union>q \<in> set (composedProperties d schemas refs). fst ` set q)
           \<and> (\<forall>k. (\<forall>q \<in> set (composedProperties d schemas refs). map_of q k = None) \<longrightarrow>
                  map_of (propertiesOrEmpty sc') k = map_of (propertiesOrEmpty sc) k)
           \<and> (\<forall>qs q qs' k v.
                  composedProperties d schemas refs = qs @ q # qs' \<and> map_of q k = Some v
                  \<and> (\<forall>q' \<in> set qs'. map_of q' k = None) \<longrightarrow>
                  map_of (propertiesOrEmpty sc') k = Some v))"
proof -
  let ?R = "resolveAndCombineAllOfs (Suc d) schemas sc"
  let ?F = "foldl (combineStep d schemas) (Inr (propertiesOrEmpty sc)) refs"
  let ?comps = "composedProperties d schemas refs"
  have R: "?R = (case ?F of Inl f \<Rightarrow> Inl f
                 | Inr combinedProperties \<Rightarrow> Inr (sc\<lparr>properties := Some combinedProperties\<rparr>))"
    by (simp only: resolve_Suc allOf option.case)
  have "(\<exists>sc'. ?R = Inr sc') \<longleftrightarrow> (\<exists>ps. ?F = Inr ps)"
    unfolding R by (cases ?F) simp_all
  then have returns: "(\<exists>sc'. ?R = Inr sc')
      \<longleftrightarrow> (\<forall>ref \<in> set refs. \<exists>q. resolvedPropertiesOfRef d schemas ref = Inr q)"
    by (simp only: foldl_combineStep_Inr_iff)
  have dq: "\<forall>ref \<in> set refs. \<forall>q. resolvedPropertiesOfRef d schemas ref = Inr q
              \<longrightarrow> distinct (map fst q)"
  proof (intro ballI allI impI)
    fix ref q
    assume "resolvedPropertiesOfRef d schemas ref = Inr q"
    then obtain name s r where "schemas name = Some s"
      and "resolveAndCombineAllOfs d schemas s = Inr r" and "q = propertiesOrEmpty r"
      by (auto simp: resolvedPropertiesOfRef_def split: option.splits sum.splits)
    then show "distinct (map fst q)" using resolve_distinct wf by blast
  qed
  have props: "map_of (propertiesOrEmpty sc') =
                 foldl (\<lambda>m q. m ++ map_of q) (map_of (propertiesOrEmpty sc)) ?comps"
    if "?R = Inr sc'" for sc'
  proof -
    from that obtain ps where F: "?F = Inr ps" and sc': "sc' = sc\<lparr>properties := Some ps\<rparr>"
      unfolding R by (cases ?F) auto
    from foldl_combineStep_map_of [OF F dq] sc' show ?thesis
      by (simp add: propertiesOrEmpty_def)
  qed
  have keys: "fst ` set (propertiesOrEmpty sc') =
                fst ` set (propertiesOrEmpty sc) \<union> (\<Union>q \<in> set ?comps. fst ` set q)"
    if "?R = Inr sc'" for sc'
  proof -
    have "dom (map_of (propertiesOrEmpty sc')) =
            dom (map_of (propertiesOrEmpty sc)) \<union> (\<Union>q \<in> set ?comps. fst ` set q)"
      by (simp only: props [OF that] dom_foldl_add)
    then show ?thesis by (simp only: dom_map_of_conv_image_fst)
  qed
  have own: "map_of (propertiesOrEmpty sc') k = map_of (propertiesOrEmpty sc) k"
    if "?R = Inr sc'" and "\<forall>q \<in> set ?comps. map_of q k = None" for sc' k
    by (simp only: props [OF that(1)] foldl_add_none [OF that(2)])
  have composed: "map_of (propertiesOrEmpty sc') k = Some v"
    if "?R = Inr sc'" and "?comps = qs @ q # qs'" and "map_of q k = Some v"
      and "\<forall>q' \<in> set qs'. map_of q' k = None" for sc' qs q qs' k v
    by (simp only: props [OF that(1)] that(2) foldl_add_last [OF that(3) that(4)])
  show ?thesis
    apply (rule conjI)
     apply (rule returns)
    apply (intro allI impI conjI)
       apply (erule props)
      apply (erule keys)
     apply (erule (1) own)
    apply (elim conjE)
    apply (erule (3) composed)
    done
qed


text \<open>
  The theorem at the example's derived schema, which composes the stored schema
  \<open>base\<close>.
\<close>

theorem resolveAndCombineAllOfs_properties_witness:
  "allOf derivedSchema = Some [Some ''base'']
   \<and> (\<exists>sc'. resolveAndCombineAllOfs (Suc (Suc 0)) (getSchema exampleEnv) derivedSchema = Inr sc')
   \<and> map_of (propertiesOrEmpty (derivedSchema\<lparr>properties :=
              Some [(''name'', Property (Some (JStr ''base''))),
                    (''lang'', Property (Some (JStr ''en'')))]\<rparr>)) =
       foldl (\<lambda>m q. m ++ map_of q) (map_of (propertiesOrEmpty derivedSchema))
         (composedProperties (Suc 0) (getSchema exampleEnv) [Some ''base''])"
proof -
  have a: "allOf derivedSchema = Some [Some ''base'']"
    by (simp add: derivedSchema_def)
  have wf: "\<forall>name s. getSchema exampleEnv name = Some s
              \<longrightarrow> distinct (map fst (propertiesOrEmpty s))"
    by (auto simp: exampleEnv_def baseSchema_def greetSchema_def propertiesOrEmpty_def
        split: if_splits)
  have r: "resolveAndCombineAllOfs (Suc (Suc 0)) (getSchema exampleEnv) derivedSchema =
       Inr (derivedSchema\<lparr>properties :=
              Some [(''name'', Property (Some (JStr ''base''))),
                    (''lang'', Property (Some (JStr ''en'')))]\<rparr>)"
    by (simp add: derivedSchema_def baseSchema_def exampleEnv_def propertiesOrEmpty_def
        assign_def)
  note t = resolveAndCombineAllOfs_properties
    [where schemas = "getSchema exampleEnv" and d = "Suc 0", OF a wf]
  from t a r show ?thesis by blast
qed


text \<open>
  C1 (as stated) fails on a key collision: the derived schema declares \<open>name\<close> with
  default \<open>derived\<close>, its base declares \<open>name\<close> with default \<open>base\<close>, and the
  combined schema has the base's.
\<close>

theorem own_property_overridden_counterexample:
  "allOf derivedSchema = Some [Some ''base'']
   \<and> map_of (propertiesOrEmpty derivedSchema) ''name'' = Some (Property (Some (JStr ''derived'')))
   \<and> resolveAndCombineAllOfs (Suc (Suc 0)) (getSchema exampleEnv) derivedSchema =
       Inr (derivedSchema\<lparr>properties :=
              Some [(''name'', Property (Some (JStr ''base''))),
                    (''lang'', Property (Some (JStr ''en'')))]\<rparr>)
   \<and> map_of (propertiesOrEmpty (derivedSchema\<lparr>properties :=
              Some [(''name'', Property (Some (JStr ''base''))),
                    (''lang'', Property (Some (JStr ''en'')))]\<rparr>)) ''name''
       \<noteq> map_of (propertiesOrEmpty derivedSchema) ''name''"
  by (simp add: derivedSchema_def baseSchema_def exampleEnv_def propertiesOrEmpty_def
      assign_def)

section \<open>Flattening: the fold over the error tree\<close>

lemma makeHash_fold:
  "makeHashOutOfValidateErrors acc e = foldl setError acc (traversal e)"
proof (induction acc e rule: makeHashOutOfValidateErrors.induct)
  case (1 acc msg ps dp sp sub)
  let ?e = "ValidationError msg ps dp sp sub"
  show ?case
  proof (cases sub)
    case None
    then show ?thesis by (simp add: setError_def)
  next
    case (Some es)
    have sub: "foldl (\<lambda>a e. makeHashOutOfValidateErrors a e) a es' =
               foldl setError a (concat (map traversal es'))"
      if "set es' \<subseteq> set es" for a es'
      using that
    proof (induction es' arbitrary: a)
      case Nil
      then show ?case by simp
    next
      case (Cons x xs)
      have "makeHashOutOfValidateErrors a x = foldl setError a (traversal x)"
        using "1.IH" [OF refl Some, of x a] Cons.prems by simp
      then show ?case using Cons by simp
    qed
    have "makeHashOutOfValidateErrors acc ?e =
            foldl (\<lambda>a e. makeHashOutOfValidateErrors a e) (setError acc ?e) es"
      by (simp add: Some setError_def)
    also have "\<dots> = foldl setError (setError acc ?e) (concat (map traversal es))"
      by (rule sub) simp
    also have "\<dots> = foldl setError acc (traversal ?e)"
      by (simp add: Some)
    finally show ?thesis .
  qed
qed

lemma isObject_baseSet: "isObject obj \<Longrightarrow> isObject (baseSet obj ks v)"
  by (induction obj ks v rule: baseSet.induct) (simp_all add: Let_def)

lemma readProp_assignKey: "readProp (JObj kd (assignKey k v ps)) k = v"
  by (cases kd) (simp_all add: map_of_assignKey)

lemma assignKey_twice: "assignKey k w (assignKey k v ps) = assignKey k w ps"
  by (induction ps) auto

lemma baseSet_twice: "baseSet (baseSet obj ks v) ks w = baseSet obj ks w"
proof (induction obj ks v rule: baseSet.induct)
  case (1 kd ps k v)
  then show ?case by (simp add: assignKey_twice)
next
  case (2 kd ps k k' ks v)
  let ?objValue = "readProp (JObj kd ps) k"
  let ?newValue = "if isObject ?objValue then ?objValue
                   else if isIndex k' then JObj Array [] else JObj Plain []"
  define X where "X = baseSet ?newValue (k' # ks) v"
  have obj: "isObject ?newValue" by simp
  have X: "isObject X"
    unfolding X_def by (rule isObject_baseSet [OF obj])
  have IH: "baseSet X (k' # ks) w = baseSet ?newValue (k' # ks) w"
    unfolding X_def using "2.IH" [OF refl refl] by simp
  have first: "baseSet (JObj kd ps) (k # k' # ks) v = JObj kd (assignKey k X ps)"
    by (simp add: Let_def X_def)
  have "baseSet (JObj kd (assignKey k X ps)) (k # k' # ks) w =
          JObj kd (assignKey k (baseSet X (k' # ks) w) (assignKey k X ps))"
    using X by (simp add: Let_def readProp_assignKey del: readProp.simps)
  also have "\<dots> = JObj kd (assignKey k (baseSet ?newValue (k' # ks) w) ps)"
    by (simp only: IH assignKey_twice)
  also have "\<dots> = baseSet (JObj kd ps) (k # k' # ks) w"
    by (simp add: Let_def)
  finally show ?case by (simp only: first)
qed simp_all


lemma digitsName_split: "digitsName cs = Some (ds, rest) \<Longrightarrow> cs = ds @ rest"
  by (auto simp: digitsName_def split: if_splits)

lemma unsignedName_split:
  assumes "unsignedName cs = Some (name, rest)"
  shows "cs = name @ CHR '']'' # rest"
proof -
  from assms obtain ds r1 where d: "digitsName cs = Some (ds, r1)"
    by (auto simp: unsignedName_def split: option.splits)
  from assms d obtain c r2 where r1: "r1 = c # r2"
    by (cases r1) (auto simp: unsignedName_def)
  note cs = digitsName_split [OF d]
  show ?thesis
  proof (cases "c = CHR '']''")
    case True
    with assms d r1 cs show ?thesis by (simp add: unsignedName_def)
  next
    case False
    with assms d r1 have dot: "c = CHR ''.''"
      by (auto simp: unsignedName_def split: if_splits)
    from assms d r1 False dot obtain fs r3 where f: "digitsName r2 = Some (fs, r3)"
      by (auto simp: unsignedName_def split: option.splits)
    from assms d r1 False dot f obtain c' r4 where r3: "r3 = c' # r4"
      by (cases r3) (auto simp: unsignedName_def)
    from assms d r1 False dot f r3 have "c' = CHR '']''" "name = ds @ c # fs" "rest = r4"
      by (auto simp: unsignedName_def split: if_splits)
    with cs r1 digitsName_split [OF f] r3 show ?thesis by simp
  qed
qed

lemma numberName_split:
  "numberName cs = Some (name, rest) \<Longrightarrow> cs = name @ CHR '']'' # rest"
  by (cases cs) (auto simp: numberName_def split: if_splits dest: unsignedName_split)

lemma quotedName_length:
  "quotedName q cs = Some (sub, rest) \<Longrightarrow> length sub + 2 + length rest = length cs"
proof (induction q cs arbitrary: sub rule: quotedName.induct)
  case (1 q)
  then show ?case by simp
next
  case (2 q c cs)
  then show ?case
    by (auto split: if_splits list.splits)
qed

lemma length_unescape: "length (unescape s) \<le> length s"
  by (induction s rule: unescape.induct) auto

lemma bracketName_length:
  assumes "bracketName cs = Some (name, rest)"
  shows "length name + 1 + length rest \<le> length cs"
proof (cases "numberName cs")
  case (Some r)
  with assms have "numberName cs = Some (name, rest)" by (simp add: bracketName_def)
  from numberName_split [OF this] show ?thesis by simp
next
  case None
  with assms obtain q cs' sub where cs: "cs = q # cs'"
    and qn: "quotedName q cs' = Some (sub, rest)" and name: "name = unescape sub"
    by (cases cs) (auto simp: bracketName_def split: if_splits)
  from quotedName_length [OF qn] length_unescape [of sub] cs name show ?thesis by simp
qed

text \<open>A name that \<open>rePropName\<close> finds is free of dots and brackets or shorter than the string.\<close>

lemma propNames_names:
  "t \<in> set (propNames s) \<Longrightarrow> (\<forall>c \<in> set t. \<not> isSpecial c) \<or> length t < length s"
proof (induction s rule: propNames.induct)
  case 1
  then show ?case by simp
next
  case (2 c cs)
  show ?case
  proof (cases "isSpecial c")
    case False
    with "2.prems" have "t = takeWhile (\<lambda>x. \<not> isSpecial x) (c # cs)
        \<or> t \<in> set (propNames (dropWhile (\<lambda>x. \<not> isSpecial x) cs))"
      by simp
    then show ?thesis
    proof
      assume "t = takeWhile (\<lambda>x. \<not> isSpecial x) (c # cs)"
      then have "\<forall>c \<in> set t. \<not> isSpecial c" by (auto dest: set_takeWhileD)
      then show ?thesis ..
    next
      assume "t \<in> set (propNames (dropWhile (\<lambda>x. \<not> isSpecial x) cs))"
      from "2.IH"(1) [OF False this]
      have "(\<forall>c \<in> set t. \<not> isSpecial c)
          \<or> length t < length (dropWhile (\<lambda>x. \<not> isSpecial x) cs)" .
      moreover have "length (dropWhile (\<lambda>x. \<not> isSpecial x) cs) \<le> length cs"
        by (rule length_dropWhile_le)
      ultimately show ?thesis by auto
    qed
  next
    case True
    show ?thesis
    proof (cases "if c = CHR ''['' then bracketName cs else None")
      case None
      with True "2.prems" have "t = [] \<or> t \<in> set (propNames cs)"
        by (auto split: if_splits)
      then show ?thesis
      proof
        assume "t = []"
        then show ?thesis by simp
      next
        assume "t \<in> set (propNames cs)"
        with "2.IH"(2,3) True None
        have "(\<forall>c \<in> set t. \<not> isSpecial c) \<or> length t < length cs"
          by (cases "emptyAhead (c # cs)") auto
        then show ?thesis by auto
      qed
    next
      case (Some a)
      obtain name rest where a: "a = (name, rest)" by (cases a)
      from Some a have b: "bracketName cs = Some (name, rest)" by (auto split: if_splits)
      from True Some a "2.prems" have "t = name \<or> t \<in> set (propNames rest)" by simp
      then show ?thesis
      proof
        assume "t = name"
        with bracketName_length [OF b] show ?thesis by simp
      next
        assume "t \<in> set (propNames rest)"
        from "2.IH"(4) [OF _ Some a [symmetric] this] True
        have "(\<forall>c \<in> set t. \<not> isSpecial c) \<or> length t < length rest" by simp
        with bracketName_length [OF b] show ?thesis by auto
      qed
    qed
  qed
qed

lemma isDeepProp_special: "isDeepProp s \<Longrightarrow> \<exists>c \<in> set s. isSpecial c"
  by (induction s) (auto simp: isSpecial_def)

lemma stringToPath_not_whole:
  assumes "isDeepProp s" and "t \<in> set (stringToPath s)"
  shows "t \<noteq> s"
proof
  assume ts: "t = s"
  from assms(1) have sp: "\<exists>c \<in> set s. isSpecial c" by (rule isDeepProp_special)
  then have ne: "s \<noteq> []" by auto
  from assms(2) have "t = [] \<or> t \<in> set (propNames s)"
    by (auto simp: stringToPath_def split: if_splits)
  then show False
  proof
    assume "t = []"
    with ts ne show False by simp
  next
    assume "t \<in> set (propNames s)"
    from propNames_names [OF this] ts sp show False by auto
  qed
qed

lemma baseSet_JObj:
  "\<exists>x. baseSet (JObj kd ps) (k0 # ks) v = JObj kd (assignKey k0 x ps)"
  by (cases ks) (auto simp: Let_def simp del: readProp.simps)

lemma baseSet_not_JObj: "\<forall>kd ps. obj \<noteq> JObj kd ps \<Longrightarrow> baseSet obj ks v = obj"
  by (cases obj) simp_all

lemma castPath_lodashSet: "castPath path (lodashSet obj path v) = castPath path obj"
proof (cases path)
  case None
  then show ?thesis by (simp add: castPath_def)
next
  case (Some s)
  show ?thesis
  proof (cases "\<exists>kd ps. obj = JObj kd ps")
    case False
    then have "lodashSet obj path v = obj"
      by (simp add: lodashSet_def baseSet_not_JObj)
    then show ?thesis by simp
  next
    case True
    then obtain kd ps where obj: "obj = JObj kd ps" by blast
    show ?thesis
    proof (cases "isKey s obj")
      case key: True
      then have set: "lodashSet obj path v = JObj kd (assignKey s v ps)"
        by (simp add: lodashSet_def castPath_def Some obj)
      have "s \<in> fst ` set (assignKey s v ps)" by (simp add: keys_assignKey)
      with key have "isKey s (JObj kd (assignKey s v ps))"
        by (auto simp: isKey_def)
      with key set Some show ?thesis by (simp add: castPath_def)
    next
      case nokey: False
      then have deep: "isDeepProp s" and notown: "s \<notin> fst ` set ps"
        by (auto simp: isKey_def obj)
      have set: "lodashSet obj path v = baseSet obj (stringToPath s) v"
        using nokey by (simp add: lodashSet_def castPath_def Some)
      show ?thesis
      proof (cases "stringToPath s")
        case Nil
        with set obj have "lodashSet obj path v = obj" by simp
        then show ?thesis by simp
      next
        case (Cons k ks)
        obtain x where new: "baseSet (JObj kd ps) (k # ks) v = JObj kd (assignKey k x ps)"
          using baseSet_JObj by blast
        have "k \<noteq> s"
          by (rule stringToPath_not_whole [OF deep]) (simp add: Cons)
        then have "s \<notin> fst ` set (assignKey k x ps)"
          using notown by (simp add: keys_assignKey)
        with nokey have "\<not> isKey s (JObj kd (assignKey k x ps))"
          by (auto simp: isKey_def)
        with nokey set Cons obj new Some show ?thesis by (simp add: castPath_def)
      qed
    qed
  qed
qed

lemma lodashSet_twice: "lodashSet (lodashSet acc p v) p w = lodashSet acc p w"
proof -
  have "lodashSet (lodashSet acc p v) p w =
          baseSet (lodashSet acc p v) (castPath p (lodashSet acc p v)) w"
    by (simp only: lodashSet_def)
  also have "\<dots> = baseSet (lodashSet acc p v) (castPath p acc) w"
    by (simp only: castPath_lodashSet)
  also have "\<dots> = baseSet acc (castPath p acc) w"
    by (simp only: lodashSet_def baseSet_twice)
  finally show ?thesis by (simp only: lodashSet_def)
qed

text \<open>A string without dots and brackets is a single key.\<close>

lemma plain_not_deep: "set k \<inter> {CHR ''.'', CHR ''['', CHR '']''} = {} \<Longrightarrow> \<not> isDeepProp k"
  by (auto dest!: isDeepProp_special simp: isSpecial_def)

lemma castPath_plain: "\<not> isDeepProp k \<Longrightarrow> castPath (Some k) obj = [k]"
  by (simp add: castPath_def isKey_def)

lemma lodashSet_plain:
  "\<not> isDeepProp k \<Longrightarrow> lodashSet (JObj kd ps) (Some k) v = JObj kd (assignKey k v ps)"
  by (simp add: lodashSet_def castPath_plain)

lemma foldl_setError_plain:
  "\<forall>n \<in> set ns. \<exists>k. errorPath n = Some k \<and> \<not> isDeepProp k
     \<Longrightarrow> \<exists>ps'. foldl setError (JObj kd ps) ns = JObj kd ps'
           \<and> map_of ps' =
               map_of ps ++ map_of (rev (map (\<lambda>n. (the (errorPath n), JStr (message n))) ns))"
proof (induction ns arbitrary: ps)
  case Nil
  then show ?case by simp
next
  case (Cons n ns)
  from Cons.prems obtain k where k: "errorPath n = Some k" "\<not> isDeepProp k" by auto
  let ?g = "\<lambda>n. (the (errorPath n), JStr (message n))"
  have step: "setError (JObj kd ps) n = JObj kd (assignKey k (JStr (message n)) ps)"
    using k by (simp add: setError_def lodashSet_plain)
  from Cons.prems have "\<forall>n \<in> set ns. \<exists>k. errorPath n = Some k \<and> \<not> isDeepProp k"
    by simp
  from Cons.IH [OF this, of "assignKey k (JStr (message n)) ps"]
  obtain ps' where ps': "foldl setError (JObj kd (assignKey k (JStr (message n)) ps)) ns = JObj kd ps'"
    and m: "map_of ps' = map_of (assignKey k (JStr (message n)) ps) ++ map_of (rev (map ?g ns))"
    by blast
  have "map_of (rev (map ?g (n # ns))) = [k \<mapsto> JStr (message n)] ++ map_of (rev (map ?g ns))"
    using k by simp
  then have "map_of ps ++ map_of (rev (map ?g (n # ns))) =
               (map_of ps ++ [k \<mapsto> JStr (message n)]) ++ map_of (rev (map ?g ns))"
    by (simp only: map_add_assoc)
  also have "\<dots> = map_of ps'"
    using m by (simp add: map_of_assignKey)
  finally have "map_of ps' = map_of ps ++ map_of (rev (map ?g (n # ns)))" by simp
  then show ?case using ps' step by simp
qed

lemma take_length_eq_prefix: "(take (length p) s = p) = (\<exists>b. s = p @ b)"
proof
  assume "take (length p) s = p"
  then have "s = p @ drop (length p) s" by (metis append_take_drop_id)
  then show "\<exists>b. s = p @ b" ..
next
  assume "\<exists>b. s = p @ b"
  then show "take (length p) s = p" by auto
qed

lemma regexTest_substring: "regexTest pat s = (\<exists>a b. s = a @ pat @ b)"
proof (induction s)
  case Nil
  then show ?case by auto
next
  case (Cons c cs)
  have "(\<exists>a b. c # cs = a @ pat @ b) = ((\<exists>b. c # cs = pat @ b) \<or> (\<exists>a b. cs = a @ pat @ b))"
  proof
    assume "\<exists>a b. c # cs = a @ pat @ b"
    then obtain a b where ab: "c # cs = a @ pat @ b" by blast
    show "(\<exists>b. c # cs = pat @ b) \<or> (\<exists>a b. cs = a @ pat @ b)"
    proof (cases a)
      case Nil
      with ab show ?thesis by auto
    next
      case (Cons x a')
      with ab have "cs = a' @ pat @ b" by simp
      then show ?thesis by blast
    qed
  next
    assume "(\<exists>b. c # cs = pat @ b) \<or> (\<exists>a b. cs = a @ pat @ b)"
    then show "\<exists>a b. c # cs = a @ pat @ b"
    proof
      assume "\<exists>b. c # cs = pat @ b"
      then obtain b where "c # cs = [] @ pat @ b" by auto
      then show ?thesis by blast
    next
      assume "\<exists>a b. cs = a @ pat @ b"
      then obtain a b where "c # cs = (c # a) @ pat @ b" by auto
      then show ?thesis by blast
    qed
  qed
  then show ?case using Cons.IH take_length_eq_prefix [of pat "c # cs"] by simp
qed


text \<open>
  C6. Flattening is the left fold of the per-node assignment over the nodes in
  depth-first order, \<open>subErrors\<close> from left to right. A node without \<open>subErrors\<close>
  contributes its own assignment only. An assignment at the path of the one before it
  replaces it; and when every node's path is a single key (a string without dots and
  brackets), each key of the result holds the message of the last node in traversal
  order that has this key.
\<close>

theorem flatten_depth_first_fold:
  "makeHashOutOfValidateErrors acc e = foldl setError acc (traversal e)
   \<and> (subErrors e = None \<longrightarrow> makeHashOutOfValidateErrors acc e = setError acc e)
   \<and> (errorPath n = errorPath n' \<longrightarrow> setError (setError acc n) n' = setError acc n')
   \<and> ((\<forall>n \<in> set (traversal e).
          \<exists>k. errorPath n = Some k \<and> set k \<inter> {CHR ''.'', CHR ''['', CHR '']''} = {}) \<longrightarrow>
        (\<exists>ps'. makeHashOutOfValidateErrors (JObj Plain ps) e = JObj Plain ps'
           \<and> map_of ps' =
               map_of ps
               ++ map_of (rev (map (\<lambda>n. (the (errorPath n), JStr (message n))) (traversal e)))))"
proof (intro conjI impI)
  show "makeHashOutOfValidateErrors acc e = foldl setError acc (traversal e)"
    by (rule makeHash_fold)
  show "makeHashOutOfValidateErrors acc e = setError acc e" if "subErrors e = None"
    using that by (cases e) (simp add: setError_def)
  show "setError (setError acc n) n' = setError acc n'" if "errorPath n = errorPath n'"
    using that by (simp add: setError_def lodashSet_twice)
  show "\<exists>ps'. makeHashOutOfValidateErrors (JObj Plain ps) e = JObj Plain ps'
           \<and> map_of ps' =
               map_of ps
               ++ map_of (rev (map (\<lambda>n. (the (errorPath n), JStr (message n))) (traversal e)))"
    if "\<forall>n \<in> set (traversal e).
          \<exists>k. errorPath n = Some k \<and> set k \<inter> {CHR ''.'', CHR ''['', CHR '']''} = {}"
  proof -
    from that have "\<forall>n \<in> set (traversal e). \<exists>k. errorPath n = Some k \<and> \<not> isDeepProp k"
      using plain_not_deep by blast
    from foldl_setError_plain [OF this] show ?thesis by (simp only: makeHash_fold)
  qed
qed

text \<open>
  The theorem on a leaf and on the tree \<open>titleErrors\<close>: three nodes write \<open>title\<close>, the
  last one in traversal order stays. A node at the data path \<open>/a[0]\<close> is outside the
  last part: its one assignment makes the array \<open>a\<close>.
\<close>

theorem flatten_depth_first_fold_witness:
  "subErrors (ValidationError ''Title is required'' [(''key'', ''title'')]
                [] ''/allOf/1/required/0'' None) = None
   \<and> makeHashOutOfValidateErrors emptyObject
        (ValidationError ''Title is required'' [(''key'', ''title'')]
                [] ''/allOf/1/required/0'' None)
       = JObj Plain [(''title'', JStr ''Title is required'')]
   \<and> map (\<lambda>n. (errorPath n, message n)) (traversal titleErrors) =
        [(Some ''title'', ''Title is invalid''),
         (Some ''title'', ''Title must be at least 1 characters long''),
         (Some ''title'', ''Title is required'')]
   \<and> set ''title'' \<inter> {CHR ''.'', CHR ''['', CHR '']''} = {}
   \<and> makeHashOutOfValidateErrors emptyObject titleErrors
       = JObj Plain [(''title'', JStr ''Title is required'')]
   \<and> makeHashOutOfValidateErrors emptyObject
        (ValidationError ''m'' [] ''/a[0]'' ''/properties/a[0]/type'' None)
       = JObj Plain [(''a'', JObj Array [(''0'', JStr ''m'')])]"
proof -
  let ?leaf = "ValidationError ''Title is required'' [(''key'', ''title'')] []
                 ''/allOf/1/required/0'' None"
  let ?b = "ValidationError ''m'' [] ''/a[0]'' ''/properties/a[0]/type'' None"
  have key: "\<not> isDeepProp ''title''" by simp
  have p: "map (\<lambda>n. (errorPath n, message n)) (traversal titleErrors) =
        [(Some ''title'', ''Title is invalid''),
         (Some ''title'', ''Title must be at least 1 characters long''),
         (Some ''title'', ''Title is required'')]"
    by (simp add: titleErrors_def errorPath_def dataPathToPath_def)
  have l: "subErrors ?leaf = None" by simp
  have lp: "errorPath ?leaf = Some ''title''" by (simp add: errorPath_def)
  from flatten_depth_first_fold [of emptyObject ?leaf, THEN conjunct2, THEN conjunct1,
      THEN mp, OF l]
  have a: "makeHashOutOfValidateErrors emptyObject ?leaf
             = JObj Plain [(''title'', JStr ''Title is required'')]"
    by (simp only: setError_def lp emptyObject_def lodashSet_plain [OF key]) simp
  have "makeHashOutOfValidateErrors emptyObject titleErrors
          = foldl setError emptyObject (traversal titleErrors)"
    by (rule flatten_depth_first_fold [THEN conjunct1])
  also have "\<dots> = JObj Plain [(''title'', JStr ''Title is required'')]"
    by (simp add: titleErrors_def setError_def errorPath_def dataPathToPath_def
        emptyObject_def lodashSet_plain [OF key])
  finally have t: "makeHashOutOfValidateErrors emptyObject titleErrors
                     = JObj Plain [(''title'', JStr ''Title is required'')]" .
  have cp: "castPath (Some ''a[0]'') (JObj Plain []) = [''a'', ''0'']"
    by (simp add: castPath_def isKey_def isPlainProp_def isWordChar_def bracketClosed_def
        stringToPath_def isSpecial_def bracketName_def numberName_def unsignedName_def
        digitsName_def emptyAhead_def)
  have ix: "isIndex ''0''" by (simp add: isIndex_def)
  have b: "makeHashOutOfValidateErrors emptyObject ?b
             = JObj Plain [(''a'', JObj Array [(''0'', JStr ''m'')])]"
    by (simp add: emptyObject_def lodashSet_def errorPath_def dataPathToPath_def cp ix
        objectPrototype_def)
  from l a p t b show ?thesis by (intro conjI) simp_all
qed

section \<open>Flattening: the path of a node\<close>


lemma member_defined: "js \<noteq> JNull \<Longrightarrow> js \<noteq> JUndefined \<Longrightarrow> member js k = Inr (readProp js k)"
  by (cases js) simp_all









text \<open>
  C10. The choice between \<open>params.key\<close> and the \<open>dataPath\<close> depends only on whether
  \<open>required\<close> occurs somewhere in the node's schema pointer.
\<close>

theorem path_chosen_by_substring:
  "((\<exists>a b. schemaPath e = a @ ''required'' @ b) \<longrightarrow> errorPath e = map_of (params e) ''key'')
   \<and> (\<not> (\<exists>a b. schemaPath e = a @ ''required'' @ b) \<longrightarrow>
        errorPath e = Some (dataPathToPath (dataPath e)))"
proof -
  have r: "(\<exists>a b. schemaPath e = a @ ''required'' @ b) = regexTest ''required'' (schemaPath e)"
    by (rule regexTest_substring [symmetric])
  show ?thesis unfolding r by (simp add: errorPath_def)
qed

text \<open>
  So a length constraint on a property that is itself named \<open>required\<close> is taken for a
  required error: its \<open>params\<close> has no \<open>key\<close>, and the message lands at the key
  \<open>undefined\<close> instead of \<open>required\<close>. The same constraint on \<open>title\<close> is addressed
  by its \<open>dataPath\<close>.
\<close>

theorem path_chosen_by_substring_witness:
  "schemaPath (ValidationError ''Required must be at least 1 characters long''
                 [(''length'', ''0''), (''minimum'', ''1'')]
                 ''/required'' ''/properties/required/minLength'' None)
     = ''/properties/'' @ ''required'' @ ''/minLength''
   \<and> errorPath (ValidationError ''Required must be at least 1 characters long''
                 [(''length'', ''0''), (''minimum'', ''1'')]
                 ''/required'' ''/properties/required/minLength'' None) = None
   \<and> dataPathToPath ''/required'' = ''required''
   \<and> makeHashOutOfValidateErrors emptyObject
        (ValidationError ''Required must be at least 1 characters long''
           [(''length'', ''0''), (''minimum'', ''1'')]
           ''/required'' ''/properties/required/minLength'' None)
       = JObj Plain [(''undefined'', JStr ''Required must be at least 1 characters long'')]
   \<and> errorPath (ValidationError ''Title must be at least 1 characters long''
                 [(''length'', ''0''), (''minimum'', ''1'')]
                 ''/title'' ''/properties/title/minLength'' None) = Some ''title''"
proof -
  let ?e = "ValidationError ''Required must be at least 1 characters long''
                 [(''length'', ''0''), (''minimum'', ''1'')]
                 ''/required'' ''/properties/required/minLength'' None"
  let ?t = "ValidationError ''Title must be at least 1 characters long''
                 [(''length'', ''0''), (''minimum'', ''1'')]
                 ''/title'' ''/properties/title/minLength'' None"
  have s: "schemaPath ?e = ''/properties/'' @ ''required'' @ ''/minLength''" by simp
  then have ex: "\<exists>a b. schemaPath ?e = a @ ''required'' @ b" by blast
  have nt: "\<not> (\<exists>a b. schemaPath ?t = a @ ''required'' @ b)"
    unfolding regexTest_substring [symmetric] by simp
  from path_chosen_by_substring [of ?e] ex have p: "errorPath ?e = None" by simp
  from path_chosen_by_substring [of ?t] nt have q: "errorPath ?t = Some ''title''"
    by (simp add: dataPathToPath_def)
  have m: "makeHashOutOfValidateErrors emptyObject ?e
       = JObj Plain [(''undefined'', JStr ''Required must be at least 1 characters long'')]"
    by (simp add: p emptyObject_def lodashSet_def castPath_def)
  show ?thesis using s p q m by (simp add: dataPathToPath_def)
qed


section \<open>The pipeline: what the blocks do\<close>

lemma map_of_assignKey_other: "k \<noteq> k0 \<Longrightarrow> map_of (assignKey k0 v ps) k = map_of ps k"
  by (simp add: map_of_assignKey)

lemma readProp_assignKey_other:
  "k \<noteq> k0 \<Longrightarrow> readProp (JObj kd (assignKey k0 v ps)) k = readProp (JObj kd ps) k"
  by (cases kd) (simp_all add: map_of_assignKey_other)

lemma member_baseSet_other:
  "k \<noteq> k0 \<Longrightarrow> member (baseSet js (k0 # ks) v) k = member js k"
proof (cases js)
  case (JObj kd ps)
  assume k: "k \<noteq> k0"
  obtain x where "baseSet (JObj kd ps) (k0 # ks) v = JObj kd (assignKey k0 x ps)"
    using baseSet_JObj by blast
  with JObj k show ?thesis by (simp add: readProp_assignKey_other del: readProp.simps)
qed simp_all

lemma member_defaultProperty:
  "k \<noteq> ''params'' \<Longrightarrow> member (defaultProperty js pp) k = member js k"
  by (simp add: defaultProperty_def member_baseSet_other split: option.splits)

lemma member_foldl_defaultProperty:
  "k \<noteq> ''params'' \<Longrightarrow> member (foldl defaultProperty js props) k = member js k"
  by (induction props arbitrary: js) (simp_all add: member_defaultProperty)

lemma member_defaultParams:
  "defaultParams env dontDefault m method js = Inr js' \<Longrightarrow> k \<noteq> ''params''
     \<Longrightarrow> member js' k = member js k"
  by (auto simp: defaultParams_def member_foldl_defaultProperty
      split: option.splits if_splits sum.splits)

lemma member_Inr: "member js k = Inr v \<Longrightarrow> v = readProp js k \<and> js \<noteq> JNull \<and> js \<noteq> JUndefined"
  by (cases js) auto

lemma id_defaultParams:
  assumes "defaultParams env dontDefault m method js = Inr js'"
    and "js \<noteq> JNull" and "js \<noteq> JUndefined"
  shows "member js' ''id'' = Inr (readProp js ''id'')"
    and "readProp js' ''id'' = readProp js ''id''"
proof -
  have "member js' ''id'' = member js ''id''"
    by (rule member_defaultParams [OF assms(1)]) simp
  then show m: "member js' ''id'' = Inr (readProp js ''id'')"
    using assms(2,3) by (simp add: member_defined)
  from member_Inr [OF m] show "readProp js' ''id'' = readProp js ''id''" by simp
qed

lemma tryBlock_dispatch:
  assumes "validateRequest env js = None"
    and "js \<noteq> JNull" and "js \<noteq> JUndefined"
    and "lookupMethod methods (toPropertyKey (readProp js ''method'')) = Some m"
    and "defaultParams env dontDefault m (readProp js ''method'') js = Inr js'"
    and "(case methodParamsSchema m of
            None \<Rightarrow> None
          | Some sc \<Rightarrow> validateResult env (paramsOrEmpty js') sc) = None"
  shows "tryBlock methods dontDefault env js =
     (case callMethod env m (readProp js' ''params'') of
        Returns r \<Rightarrow> (js', 1, Some (Inr (ResultResponse r (readProp js' ''id''))))
      | ThrowsRpc err \<Rightarrow> (js', 1, Some (Inl (ThrownRpc err)))
      | Throws f \<Rightarrow> (js', 1, Some (Inl (ThrownFault f)))
      | Pending \<Rightarrow> (js', 1, None))"
  using assms by (simp add: tryBlock_def member_defined)



lemma tryBlock_frame:
  assumes "tryBlock methods dontDefault env js = (js', n, r)"
  shows "member js' ''id'' = member js ''id''"
    and "n \<le> 1"
    and "r = Some (Inr resp) \<Longrightarrow> responseId resp = readProp js ''id''"
proof -
  have "member js' ''id'' = member js ''id'' \<and> n \<le> 1
        \<and> (r = Some (Inr resp) \<longrightarrow> responseId resp = readProp js ''id'')"
  proof (cases "validateRequest env js")
    case (Some err)
    with assms show ?thesis by (auto simp: tryBlock_def throwRpc_def)
  next
    case None
    note valid = this
    show ?thesis
    proof (cases "member js ''method''")
      case (Inl f)
      with assms valid show ?thesis by (auto simp: tryBlock_def)
    next
      case (Inr name)
      note meth = this
      from member_Inr [OF Inr] have nn: "js \<noteq> JNull" "js \<noteq> JUndefined" by simp_all
      show ?thesis
      proof (cases "lookupMethod methods (toPropertyKey name)")
        case None
        with assms valid meth show ?thesis by (auto simp: tryBlock_def throwRpc_def)
      next
        case (Some m)
        note found = this
        show ?thesis
        proof (cases "defaultParams env dontDefault m name js")
          case (Inl f)
          with assms valid meth found show ?thesis by (auto simp: tryBlock_def)
        next
          case (Inr js'')
          have idm: "member js'' ''id'' = member js ''id''"
            by (rule member_defaultParams [OF Inr]) simp
          have idr: "readProp js'' ''id'' = readProp js ''id''"
            using idm nn by (simp add: member_defined) (metis member_Inr)
          from assms valid meth found Inr idm idr show ?thesis
            by (auto simp: tryBlock_def throwRpc_def split: option.splits outcome.splits)
        qed
      qed
    qed
  qed
  then show "member js' ''id'' = member js ''id''" and "n \<le> 1"
    and "r = Some (Inr resp) \<Longrightarrow> responseId resp = readProp js ''id''"
    by simp_all
qed

lemma catchBlock_run:
  "catchBlock env js t n =
     \<lparr>settled = (case member js ''id'' of
                   Inl f \<Rightarrow> Rejects f
                 | Inr i \<Rightarrow> Responds (ErrorResponse
                     (case t of
                        ThrownRpc err \<Rightarrow> err
                      | ThrownFault f \<Rightarrow>
                          RpcError (if production env then JBool False else serializeError env f)
                            ''Internal error'' (- 32603)) i)),
      dispatched = n,
      logged = (case t of
                  ThrownRpc err \<Rightarrow> []
                | ThrownFault f \<Rightarrow>
                    if production env
                    then [JObj Plain [(''message'', JStr ''Error occured in RPC function''),
                                      (''error'', serializeError env f)]]
                    else [])\<rparr>"
  by (simp add: catchBlock_def Let_def split: sum.splits)


text \<open>The definitions that running the example service unfolds.\<close>

lemmas example_defs =
  exampleEnv_def exampleMethods_def exampleValidateRequest_def exampleValidateResult_def
  greet_def fails_def greetSchema_def derivedSchema_def baseSchema_def rpcRequest_def
  lookupMethod_def objectPrototype_def defaultParams_def defaultProperty_def
  propertiesOrEmpty_def paramsOrEmpty_def emptyObject_def assign_def callMethod_def

section \<open>The pipeline's error responses\<close>

text \<open>
  C7. When the body of a JSON request does not parse, the response is the error
  \<open>-32700\<close>, \<open>Parse error\<close>, with the serialized parser fault as data and the id
  \<open>null\<close>; no handler is called.
\<close>

theorem parse_error_response:
  assumes "contentType req = Some ''application/json''"
    and "json e (body req) = Inl err"
  shows "handleRpcs methods dontDefault e req =
           \<lparr>settled = Responds (ErrorResponse
                         (RpcError (serializeError e err) ''Parse error'' (- 32700)) JNull),
            dispatched = 0, logged = []\<rparr>"
  using assms by (simp add: handleRpcs_def catchBlock_def)

theorem parse_error_response_witness:
  "contentType \<lparr>contentType = Some ''application/json'', body = None\<rparr>
     = Some ''application/json''
   \<and> json exampleEnv (body \<lparr>contentType = Some ''application/json'', body = None\<rparr>)
       = Inl (ParseFault ''Invalid JSON'')
   \<and> handleRpcs exampleMethods [] exampleEnv
         \<lparr>contentType = Some ''application/json'', body = None\<rparr> =
       \<lparr>settled = Responds (ErrorResponse
                     (RpcError (JStr ''Invalid JSON'') ''Parse error'' (- 32700)) JNull),
        dispatched = 0, logged = []\<rparr>"
  using parse_error_response [of "\<lparr>contentType = Some ''application/json'', body = None\<rparr>"
      exampleEnv "ParseFault ''Invalid JSON''" exampleMethods "[]"]
  by (simp add: exampleEnv_def)

text \<open>
  C3. The method name \<open>toString\<close> is not loaded in the example service, yet the lookup
  \<open>methods[js.method]\<close> finds the function inherited from \<open>Object.prototype\<close>: the
  request is dispatched to it and answered with a result, not with \<open>-32601\<close>.
\<close>

theorem inherited_method_dispatched:
  "map_of exampleMethods ''toString'' = None
   \<and> handleRpcs exampleMethods [] exampleEnv
       (rpcRequest (JObj Plain [(''jsonrpc'', JStr ''2.0''), (''method'', JStr ''toString''),
                                (''id'', JNum 1)])) =
     \<lparr>settled = Responds (ResultResponse (JStr ''[object Object]'') (JNum 1)),
      dispatched = 1, logged = []\<rparr>"
  by (simp add: handleRpcs_def tryBlock_def rpcRequest_def exampleEnv_def exampleMethods_def
      exampleValidateRequest_def lookupMethod_def objectPrototype_def defaultParams_def
      callMethod_def exampleCallInherited_def)

text \<open>
  C9. A handler that throws an \<open>RpcError\<close> gets exactly that error into the response.
  Any other fault becomes \<open>-32603\<close>, \<open>Internal error\<close>: outside production with the
  serialized fault as data; in production with the data \<open>false\<close> and the serialized
  fault written to the error log.
\<close>

theorem handler_fault_response:
  assumes "contentType req = Some ''application/json''"
    and "json env (body req) = Inr js"
    and "js \<noteq> JNull" and "js \<noteq> JUndefined"
    and "validateRequest env js = None"
    and "lookupMethod methods (toPropertyKey (readProp js ''method'')) = Some m"
    and "defaultParams env dontDefault m (readProp js ''method'') js = Inr js'"
    and "(case methodParamsSchema m of
            None \<Rightarrow> None
          | Some sc \<Rightarrow> validateResult env (paramsOrEmpty js') sc) = None"
  shows "(callMethod env m (readProp js' ''params'') = ThrowsRpc err \<longrightarrow>
            handleRpcs methods dontDefault env req =
              \<lparr>settled = Responds (ErrorResponse err (readProp js ''id'')),
               dispatched = 1, logged = []\<rparr>)
       \<and> (callMethod env m (readProp js' ''params'') = Throws f \<and> \<not> production env \<longrightarrow>
            handleRpcs methods dontDefault env req =
              \<lparr>settled = Responds (ErrorResponse
                            (RpcError (serializeError env f) ''Internal error'' (- 32603))
                            (readProp js ''id'')),
               dispatched = 1, logged = []\<rparr>)
       \<and> (callMethod env m (readProp js' ''params'') = Throws f \<and> production env \<longrightarrow>
            handleRpcs methods dontDefault env req =
              \<lparr>settled = Responds (ErrorResponse
                            (RpcError (JBool False) ''Internal error'' (- 32603))
                            (readProp js ''id'')),
               dispatched = 1,
               logged = [JObj Plain [(''message'', JStr ''Error occured in RPC function''),
                                     (''error'', serializeError env f)]]\<rparr>)"
proof -
  note t = tryBlock_dispatch [OF assms(5,3,4,6,7,8)]
  have i: "member js' ''id'' = Inr (readProp js ''id'')"
    by (rule id_defaultParams(1) [OF assms(7,3,4)])
  show ?thesis
    using assms(1,2) by (simp add: handleRpcs_def t catchBlock_run i)
qed

text \<open>
  The theorem on the method \<open>fails\<close>: with the injected default \<open>name\<close> it throws
  an \<open>RpcError\<close>; with defaulting switched off it throws another fault, answered
  outside production and in production.
\<close>

theorem handler_fault_response_witness:
  "callMethod exampleEnv (Loaded fails)
      (JObj Plain [(''name'', JStr ''base''), (''lang'', JStr ''en'')])
     = ThrowsRpc (RpcError (JStr ''base'') ''Not allowed'' 403)
   \<and> handleRpcs exampleMethods [] exampleEnv (rpcRequest callFails) =
       \<lparr>settled = Responds (ErrorResponse (RpcError (JStr ''base'') ''Not allowed'' 403)
                     (JNum 3)),
        dispatched = 1, logged = []\<rparr>
   \<and> callMethod exampleEnv (Loaded fails) JUndefined = Throws (HandlerFault ''boom'')
   \<and> handleRpcs exampleMethods [''fails''] exampleEnv (rpcRequest callFails) =
       \<lparr>settled = Responds (ErrorResponse
                     (RpcError (JStr ''boom'') ''Internal error'' (- 32603)) (JNum 3)),
        dispatched = 1, logged = []\<rparr>
   \<and> handleRpcs exampleMethods [''fails''] (exampleEnv\<lparr>production := True\<rparr>)
         (rpcRequest callFails) =
       \<lparr>settled = Responds (ErrorResponse
                     (RpcError (JBool False) ''Internal error'' (- 32603)) (JNum 3)),
        dispatched = 1,
        logged = [JObj Plain [(''message'', JStr ''Error occured in RPC function''),
                              (''error'', JStr ''boom'')]]\<rparr>"
proof -
  let ?prod = "exampleEnv\<lparr>production := True\<rparr>"
  let ?js' = "JObj Plain [(''jsonrpc'', JStr ''2.0''), (''method'', JStr ''fails''),
                (''id'', JNum 3),
                (''params'', JObj Plain [(''name'', JStr ''base''), (''lang'', JStr ''en'')])]"
  have 1: "contentType (rpcRequest callFails) = Some ''application/json''"
    by (simp add: rpcRequest_def)
  have 2: "json exampleEnv (body (rpcRequest callFails)) = Inr callFails"
    "json ?prod (body (rpcRequest callFails)) = Inr callFails"
    by (simp_all add: rpcRequest_def exampleEnv_def)
  have 3: "callFails \<noteq> JNull" and 4: "callFails \<noteq> JUndefined"
    by (simp_all add: callFails_def)
  have 5: "validateRequest exampleEnv callFails = None"
    "validateRequest ?prod callFails = None"
    by (simp_all add: callFails_def exampleEnv_def exampleValidateRequest_def)
  have 6: "lookupMethod exampleMethods (toPropertyKey (readProp callFails ''method''))
             = Some (Loaded fails)"
    by (simp add: callFails_def exampleMethods_def lookupMethod_def)
  have 7: "defaultParams exampleEnv [] (Loaded fails) (readProp callFails ''method'')
             callFails = Inr ?js'"
    by (simp add: callFails_def example_defs isIndex_def)
  have inj: "defaultParams exampleEnv [''fails''] (Loaded fails) (readProp callFails ''method'')
             callFails = Inr callFails"
    "defaultParams ?prod [''fails''] (Loaded fails) (readProp callFails ''method'')
             callFails = Inr callFails"
    by (simp_all add: callFails_def example_defs)
  have 8: "(case methodParamsSchema (Loaded fails) of
              None \<Rightarrow> None
            | Some sc \<Rightarrow> validateResult exampleEnv (paramsOrEmpty ?js') sc) = None"
    by (simp add: example_defs)
  have pv: "(case methodParamsSchema (Loaded fails) of
              None \<Rightarrow> None
            | Some sc \<Rightarrow> validateResult exampleEnv (paramsOrEmpty callFails) sc) = None"
    "(case methodParamsSchema (Loaded fails) of
              None \<Rightarrow> None
            | Some sc \<Rightarrow> validateResult ?prod (paramsOrEmpty callFails) sc) = None"
    by (simp_all add: callFails_def example_defs)
  have c1: "callMethod exampleEnv (Loaded fails) (readProp ?js' ''params'')
              = ThrowsRpc (RpcError (JStr ''base'') ''Not allowed'' 403)"
    by (simp add: callMethod_def fails_def)
  have c2: "callMethod exampleEnv (Loaded fails) (readProp callFails ''params'')
              = Throws (HandlerFault ''boom'') \<and> \<not> production exampleEnv"
    by (simp add: callMethod_def fails_def callFails_def exampleEnv_def)
  have c3: "callMethod ?prod (Loaded fails) (readProp callFails ''params'')
              = Throws (HandlerFault ''boom'') \<and> production ?prod"
    by (simp add: callMethod_def fails_def callFails_def)
  have i: "readProp callFails ''id'' = JNum 3"
    by (simp add: callFails_def)
  have s: "serializeError exampleEnv (HandlerFault ''boom'') = JStr ''boom''"
    "serializeError ?prod (HandlerFault ''boom'') = JStr ''boom''"
    by (simp_all add: exampleEnv_def)
  note a = handler_fault_response [OF 1 2(1) 3 4 5(1) 6 7 8, THEN conjunct1, THEN mp, OF c1,
      unfolded i]
  note b = handler_fault_response [OF 1 2(1) 3 4 5(1) 6 inj(1) pv(1), THEN conjunct2,
      THEN conjunct1, THEN mp, OF c2, unfolded i s]
  note c = handler_fault_response [OF 1 2(2) 3 4 5(2) 6 inj(2) pv(2), THEN conjunct2,
      THEN conjunct2, THEN mp, OF c3, unfolded i s]
  have d1: "callMethod exampleEnv (Loaded fails)
      (JObj Plain [(''name'', JStr ''base''), (''lang'', JStr ''en'')])
     = ThrowsRpc (RpcError (JStr ''base'') ''Not allowed'' 403)"
    by (simp add: callMethod_def fails_def)
  have d2: "callMethod exampleEnv (Loaded fails) JUndefined = Throws (HandlerFault ''boom'')"
    by (simp add: callMethod_def fails_def)
  from a b c d1 d2 show ?thesis by (intro conjI)
qed


text \<open>
  C5. Every response of the pipeline carries \<open>null\<close> as id when the body did not parse
  and the parsed request's \<open>id\<close> otherwise. The handler is never called more than
  once; for a request that passed both validations it is called exactly once, and when it
  returns, the result response carries the request's \<open>id\<close>.
\<close>

theorem response_id_and_single_dispatch:
  "(contentType req = Some ''application/json''
      \<and> settled (handleRpcs methods dontDefault env req) = Responds resp \<longrightarrow>
      responseId resp =
        (case json env (body req) of Inl f \<Rightarrow> JNull | Inr js \<Rightarrow> readProp js ''id''))
   \<and> dispatched (handleRpcs methods dontDefault env req) \<le> 1
   \<and> (contentType req = Some ''application/json'' \<and> json env (body req) = Inr js
        \<and> js \<noteq> JNull \<and> js \<noteq> JUndefined \<and> validateRequest env js = None
        \<and> lookupMethod methods (toPropertyKey (readProp js ''method'')) = Some m
        \<and> defaultParams env dontDefault m (readProp js ''method'') js = Inr js'
        \<and> (case methodParamsSchema m of
              None \<Rightarrow> None
            | Some sc \<Rightarrow> validateResult env (paramsOrEmpty js') sc) = None \<longrightarrow>
        dispatched (handleRpcs methods dontDefault env req) = 1
        \<and> (callMethod env m (readProp js' ''params'') = Returns r \<longrightarrow>
             handleRpcs methods dontDefault env req =
               \<lparr>settled = Responds (ResultResponse r (readProp js ''id'')),
                dispatched = 1, logged = []\<rparr>))"
proof (intro conjI impI)
  assume a0: "contentType req = Some ''application/json''
      \<and> settled (handleRpcs methods dontDefault env req) = Responds resp"
  then have ct: "contentType req = Some ''application/json''"
    and st: "settled (handleRpcs methods dontDefault env req) = Responds resp"
    by simp_all
  have hr: "handleRpcs methods dontDefault env req =
      (case json env (body req) of
              Inl err \<Rightarrow>
                catchBlock env (JObj Plain [(''id'', JNull)])
                  (ThrownRpc (RpcError (serializeError env err) ''Parse error'' (- 32700))) 0
            | Inr js \<Rightarrow>
                (case tryBlock methods dontDefault env js of
                   (js', n, None) \<Rightarrow> \<lparr>settled = NeverSettles, dispatched = n, logged = []\<rparr>
                 | (js', n, Some (Inl t)) \<Rightarrow> catchBlock env js' t n
                 | (js', n, Some (Inr resp)) \<Rightarrow>
                     \<lparr>settled = Responds resp, dispatched = n, logged = []\<rparr>))"
    using ct by (simp add: handleRpcs_def)
  note a = st [unfolded hr]
  show "responseId resp =
        (case json env (body req) of Inl f \<Rightarrow> JNull | Inr js \<Rightarrow> readProp js ''id'')"
  proof (cases "json env (body req)")
    case (Inl f)
    with a show ?thesis by (auto simp: catchBlock_run)
  next
    case (Inr js0)
    obtain js1 n r0 where t: "tryBlock methods dontDefault env js0 = (js1, n, r0)"
      by (cases "tryBlock methods dontDefault env js0") auto
    note fr = tryBlock_frame [OF t]
    show ?thesis
    proof (cases r0)
      case None
      with a Inr t show ?thesis by simp
    next
      case (Some x)
      show ?thesis
      proof (cases x)
        case (Inl th)
        with a Inr t Some fr(1) show ?thesis
          by (auto simp: catchBlock_run split: sum.splits dest: member_Inr)
      next
        case (Inr resp')
        with a \<open>json env (body req) = Inr js0\<close> t Some fr(3) [of resp'] show ?thesis
          by simp
      qed
    qed
  qed
next
  show "dispatched (handleRpcs methods dontDefault env req) \<le> 1"
  proof (cases "contentType req = Some ''application/json''")
    case False
    then show ?thesis by (simp add: handleRpcs_def)
  next
    case True
    show ?thesis
    proof (cases "json env (body req)")
      case (Inl f)
      with True show ?thesis by (simp add: handleRpcs_def catchBlock_run)
    next
      case (Inr js0)
      obtain js1 n r0 where t: "tryBlock methods dontDefault env js0 = (js1, n, r0)"
        by (cases "tryBlock methods dontDefault env js0") auto
      from tryBlock_frame(2) [OF t] True Inr t show ?thesis
        by (auto simp: handleRpcs_def catchBlock_run split: option.splits sum.splits)
    qed
  qed
next
  assume h: "contentType req = Some ''application/json'' \<and> json env (body req) = Inr js
        \<and> js \<noteq> JNull \<and> js \<noteq> JUndefined \<and> validateRequest env js = None
        \<and> lookupMethod methods (toPropertyKey (readProp js ''method'')) = Some m
        \<and> defaultParams env dontDefault m (readProp js ''method'') js = Inr js'
        \<and> (case methodParamsSchema m of
              None \<Rightarrow> None
            | Some sc \<Rightarrow> validateResult env (paramsOrEmpty js') sc) = None"
  then have h1: "contentType req = Some ''application/json''"
    and h2: "json env (body req) = Inr js"
    and h3: "js \<noteq> JNull" and h4: "js \<noteq> JUndefined"
    and h5: "validateRequest env js = None"
    and h6: "lookupMethod methods (toPropertyKey (readProp js ''method'')) = Some m"
    and h7: "defaultParams env dontDefault m (readProp js ''method'') js = Inr js'"
    and h8: "(case methodParamsSchema m of
              None \<Rightarrow> None
            | Some sc \<Rightarrow> validateResult env (paramsOrEmpty js') sc) = None"
    by simp_all
  note t = tryBlock_dispatch [OF h5 h3 h4 h6 h7 h8]
  have i: "readProp js' ''id'' = readProp js ''id''"
    by (rule id_defaultParams(2) [OF h7 h3 h4])
  from h1 h2 t show "dispatched (handleRpcs methods dontDefault env req) = 1"
    by (simp add: handleRpcs_def catchBlock_run split: outcome.splits)
  assume "callMethod env m (readProp js' ''params'') = Returns r"
  with h1 h2 t i show "handleRpcs methods dontDefault env req =
               \<lparr>settled = Responds (ResultResponse r (readProp js ''id'')),
                dispatched = 1, logged = []\<rparr>"
    by (simp add: handleRpcs_def)
qed

text \<open>
  The theorem on a body that does not parse, on an unknown method with id 9, and on the
  request \<open>greet\<close> with id 1.
\<close>

theorem response_id_and_single_dispatch_witness:
  "settled (handleRpcs exampleMethods [] exampleEnv
              \<lparr>contentType = Some ''application/json'', body = None\<rparr>) =
     Responds (ErrorResponse (RpcError (JStr ''Invalid JSON'') ''Parse error'' (- 32700)) JNull)
   \<and> responseId (ErrorResponse (RpcError (JStr ''Invalid JSON'') ''Parse error'' (- 32700))
                  JNull) = JNull
   \<and> settled (handleRpcs exampleMethods [] exampleEnv (rpcRequest callUnknown)) =
       Responds (ErrorResponse (RpcError JNull ''Method not found'' (- 32601)) (JNum 9))
   \<and> readProp callUnknown ''id'' = JNum 9
   \<and> defaultParams exampleEnv [] (Loaded greet) (JStr ''greet'') callGreet =
       Inr (JObj Plain [(''jsonrpc'', JStr ''2.0''), (''method'', JStr ''greet''),
                        (''params'', JObj Plain [(''name'', JStr ''world'')]),
                        (''id'', JNum 1)])
   \<and> handleRpcs exampleMethods [] exampleEnv (rpcRequest callGreet) =
       \<lparr>settled = Responds (ResultResponse (JStr ''hello world'') (JNum 1)),
        dispatched = 1, logged = []\<rparr>"
proof -
  let ?bad = "\<lparr>contentType = Some ''application/json'', body = None :: jsval option\<rparr>"
  let ?perr = "ErrorResponse (RpcError (JStr ''Invalid JSON'') ''Parse error'' (- 32700)) JNull"
  let ?nf = "ErrorResponse (RpcError JNull ''Method not found'' (- 32601)) (JNum 9)"
  let ?js' = "JObj Plain [(''jsonrpc'', JStr ''2.0''), (''method'', JStr ''greet''),
                (''params'', JObj Plain [(''name'', JStr ''world'')]), (''id'', JNum 1)]"
  have p: "settled (handleRpcs exampleMethods [] exampleEnv ?bad) = Responds ?perr"
    by (simp add: handleRpcs_def catchBlock_run exampleEnv_def)
  have pj: "json exampleEnv (body ?bad) = Inl (ParseFault ''Invalid JSON'')"
    by (simp add: exampleEnv_def)
  have u: "settled (handleRpcs exampleMethods [] exampleEnv (rpcRequest callUnknown))
             = Responds ?nf"
    by (simp add: handleRpcs_def tryBlock_def throwRpc_def catchBlock_run callUnknown_def
        example_defs)
  have uj: "json exampleEnv (body (rpcRequest callUnknown)) = Inr callUnknown"
    by (simp add: rpcRequest_def exampleEnv_def)
  have uc: "contentType (rpcRequest callUnknown) = Some ''application/json''"
    by (simp add: rpcRequest_def)
  from response_id_and_single_dispatch
    [where req = ?bad and methods = exampleMethods and dontDefault = "[]"
      and env = exampleEnv and resp = ?perr, THEN conjunct1] p pj
  have a: "responseId ?perr = JNull" by simp
  from response_id_and_single_dispatch
    [where req = "rpcRequest callUnknown" and methods = exampleMethods and dontDefault = "[]"
      and env = exampleEnv and resp = ?nf, THEN conjunct1] u uj uc
  have b: "readProp callUnknown ''id'' = JNum 9" by simp
  have h: "contentType (rpcRequest callGreet) = Some ''application/json''
        \<and> json exampleEnv (body (rpcRequest callGreet)) = Inr callGreet
        \<and> callGreet \<noteq> JNull \<and> callGreet \<noteq> JUndefined
        \<and> validateRequest exampleEnv callGreet = None
        \<and> lookupMethod exampleMethods (toPropertyKey (readProp callGreet ''method''))
            = Some (Loaded greet)
        \<and> defaultParams exampleEnv [] (Loaded greet) (readProp callGreet ''method'') callGreet
            = Inr ?js'
        \<and> (case methodParamsSchema (Loaded greet) of
              None \<Rightarrow> None
            | Some sc \<Rightarrow> validateResult exampleEnv (paramsOrEmpty ?js') sc) = None"
    by (simp add: callGreet_def example_defs)
  have c: "callMethod exampleEnv (Loaded greet) (readProp ?js' ''params'')
             = Returns (JStr ''hello world'')"
    by (simp add: callMethod_def greet_def)
  have i: "readProp callGreet ''id'' = JNum 1"
    by (simp add: callGreet_def)
  note g = response_id_and_single_dispatch
    [where req = "rpcRequest callGreet" and methods = exampleMethods and dontDefault = "[]"
      and env = exampleEnv and js = callGreet and m = "Loaded greet" and js' = ?js'
      and r = "JStr ''hello world''",
      THEN conjunct2, THEN conjunct2, THEN mp, OF h, THEN conjunct2, THEN mp, OF c,
      unfolded i]
  have d: "defaultParams exampleEnv [] (Loaded greet) (JStr ''greet'') callGreet = Inr ?js'"
    by (simp add: callGreet_def example_defs)
  from p a u b d g show ?thesis by (intro conjI)
qed

section \<open>Default injection\<close>














lemma defaultParams_skipped:
  "methodParamsSchema m = None \<or> (\<exists>name. nm = JStr name \<and> name \<in> set dontDefault)
     \<Longrightarrow> defaultParams env dontDefault m nm js = Inr js"
  by (auto simp: defaultParams_def split: option.splits)

text \<open>
  C4. In the method \<open>describe\<close> the parameter \<open>toString\<close> declares the default \<open>x\<close>,
  and the request has no \<open>params\<close>. Injecting the default of \<open>greeting\<close> creates
  \<open>params\<close>; after that \<open>get\<close> finds the function every object inherits under
  \<open>toString\<close>, and the declared default is not set: the handler is called with
  \<open>greeting\<close> only.
\<close>

theorem inherited_name_not_defaulted:
  "map_of (propertiesOrEmpty describeSchema) ''toString'' = Some (Property (Some (JStr ''x'')))
   \<and> readProp callDescribe ''params'' = JUndefined
   \<and> defaultParams exampleEnv [] (Loaded describe) (JStr ''describe'') callDescribe =
       Inr (JObj Plain [(''jsonrpc'', JStr ''2.0''), (''method'', JStr ''describe''),
                        (''id'', JNum 4),
                        (''params'', JObj Plain [(''greeting'', JStr ''hello'')])])
   \<and> handleRpcs describeMethods [] exampleEnv (rpcRequest callDescribe) =
       \<lparr>settled = Responds (ResultResponse (JObj Plain [(''greeting'', JStr ''hello'')])
                              (JNum 4)),
        dispatched = 1, logged = []\<rparr>"
  by (simp add: handleRpcs_def tryBlock_def callDescribe_def describeSchema_def describe_def
      describeMethods_def example_defs isIndex_def)

section \<open>Parameter validation\<close>



end
